theory Spec2Isabelle
  imports Complex_Main
begin

section \<open>Strings and arbitrary-precision integers of the host language\<close>

text \<open>
  The amount type of the SDK works on decimal numerals held in strings and on
  arbitrary-precision integers (\<open>bigint\<close>, modelled as \<^typ>\<open>int\<close>). A string is a
  \<^typ>\<open>string\<close>; every string the code inspects character by character has passed the
  grammar check first and so holds ASCII digits and at most one point.
\<close>

definition isDigit :: "char \<Rightarrow> bool" where
  \<comment> \<open>the class \<open>\d\<close> of a regular expression without the unicode flag: \<open>0\<close> to \<open>9\<close>\<close>
  "isDigit c = (c \<in> set ''0123456789'')"

definition digitValue :: "char \<Rightarrow> nat" where
  "digitValue c = of_char c - 48"

definition digitChar :: "nat \<Rightarrow> char" where
  "digitChar n = ''0123456789'' ! n"

definition matchesDecimal :: "string \<Rightarrow> bool" where
  \<comment> \<open>\<open>str.match(/^\d+(\.\d+)?$/)\<close>: a recogniser for the whole string\<close>
  "matchesDecimal s =
     (let i = takeWhile isDigit s; r = dropWhile isDigit s
      in i \<noteq> [] \<and>
         (case r of
            [] \<Rightarrow> True
          | c # f \<Rightarrow> c = CHR ''.'' \<and> f \<noteq> [] \<and> list_all isDigit f))"

fun split_on :: "char \<Rightarrow> string \<Rightarrow> string list" where
  \<comment> \<open>\<open>str.split(sep)\<close> for a separator of one character\<close>
  "split_on sep [] = [[]]"
| "split_on sep (x # xs) =
     (if x = sep then [] # split_on sep xs
      else (case split_on sep xs of
              [] \<Rightarrow> [[x]]
            | p # ps \<Rightarrow> (x # p) # ps))"

definition integerPart :: "string \<Rightarrow> string" where
  \<comment> \<open>the first component of \<open>const [integer, fraction = ""] = str.split(".")\<close>\<close>
  "integerPart s = (case split_on CHR ''.'' s of [] \<Rightarrow> [] | i # _ \<Rightarrow> i)"

definition fractionPart :: "string \<Rightarrow> string" where
  \<comment> \<open>the second component, with its default \<open>""\<close> when the split has one element\<close>
  "fractionPart s = (case split_on CHR ''.'' s of i # f # _ \<Rightarrow> f | _ \<Rightarrow> [])"

definition padEnd :: "nat \<Rightarrow> char \<Rightarrow> string \<Rightarrow> string" where
  "padEnd n c s = s @ replicate (n - length s) c"

definition padStart :: "nat \<Rightarrow> char \<Rightarrow> string \<Rightarrow> string" where
  "padStart n c s = replicate (n - length s) c @ s"

definition slice_to_neg :: "nat \<Rightarrow> string \<Rightarrow> string" where
  \<comment> \<open>\<open>s.slice(0, -d)\<close> for \<open>d > 0\<close>: all but the last \<open>d\<close> characters\<close>
  "slice_to_neg d s = take (length s - d) s"

definition slice_from_neg :: "nat \<Rightarrow> string \<Rightarrow> string" where
  \<comment> \<open>\<open>s.slice(-d)\<close> for \<open>d > 0\<close>: the last \<open>d\<close> characters (all of \<open>s\<close> when it is shorter)\<close>
  "slice_from_neg d s = drop (length s - d) s"

definition stripTrailingZeros :: "string \<Rightarrow> string" where
  \<comment> \<open>\<open>s.replace(/0+$/, "")\<close>\<close>
  "stripTrailingZeros s = rev (dropWhile (\<lambda>c. c = CHR ''0'') (rev s))"

definition stripLeadingZeros :: "string \<Rightarrow> string" where
  \<comment> \<open>the canonical spelling of an integer part: no leading zero, but at least one digit\<close>
  "stripLeadingZeros s =
     (let t = dropWhile (\<lambda>c. c = CHR ''0'') s in if t = [] then ''0'' else t)"

definition digitsValue :: "string \<Rightarrow> nat" where
  "digitsValue s = foldl (\<lambda>a c. 10 * a + digitValue c) 0 s"

datatype syntax_error = SyntaxError

definition BigInt_of_string :: "string \<Rightarrow> syntax_error + int" where
  \<comment> \<open>\<open>BigInt(str)\<close> on a string of decimal digits (the empty string is \<open>0n\<close>); the
      code only ever passes such strings, the other literal forms are not modelled\<close>
  "BigInt_of_string s =
     (if list_all isDigit s then Inr (int (digitsValue s)) else Inl SyntaxError)"

fun natToString :: "nat \<Rightarrow> string" where
  "natToString n =
     (if n < 10 then [digitChar n]
      else natToString (n div 10) @ [digitChar (n mod 10)])"

declare natToString.simps [simp del]

definition bigintToString :: "int \<Rightarrow> string" where
  \<comment> \<open>\<open>value.toString()\<close> of a bigint\<close>
  "bigintToString v =
     (if v < 0 then CHR ''-'' # natToString (nat (- v)) else natToString (nat v))"

definition bigint_div :: "int \<Rightarrow> int \<Rightarrow> int" where
  \<comment> \<open>the \<open>/\<close> of two bigints rounds toward zero; the divisor is never zero where the
      code divides\<close>
  "bigint_div a b = sgn a * sgn b * (\<bar>a\<bar> div \<bar>b\<bar>)"

section \<open>The Amount class\<close>

record Amount =
  baseValue :: int
  decimals :: nat
  symbol :: "string option"

datatype AmountInput = Str string | BigIntValue int

fun inputToString :: "AmountInput \<Rightarrow> string" where
  \<comment> \<open>\<open>amount.toString()\<close>; an input of type \<open>number\<close> enters as the string its
      \<open>toString\<close> gives\<close>
  "inputToString (Str s) = s"
| "inputToString (BigIntValue v) = bigintToString v"

datatype amount_error =
    InvalidUnitAmount string
  | PrecisionOverflow string nat
  | InvalidMultiplier string
  | InvalidDivisor string
  | DivisionByZero
  | DifferentDecimals nat nat
  | DifferentSymbols string string
  | BigIntSyntaxError

definition PRECISION :: nat where
  "PRECISION = 18"

definition scaleFactor :: int where
  "scaleFactor = 10 ^ PRECISION"

definition fromUnit :: "AmountInput \<Rightarrow> nat \<Rightarrow> string option \<Rightarrow> amount_error + Amount" where
  "fromUnit amount dec symb =
     (let amountStr = inputToString amount
      in if \<not> matchesDecimal amountStr then Inl (InvalidUnitAmount amountStr)
         else
           let integer = integerPart amountStr;
               fraction = fractionPart amountStr
           in if length fraction > dec then Inl (PrecisionOverflow amountStr dec)
              else
                let paddedFraction = padEnd dec CHR ''0'' fraction
                in case BigInt_of_string (integer @ paddedFraction) of
                     Inl _ \<Rightarrow> Inl BigIntSyntaxError
                   | Inr b \<Rightarrow> Inr \<lparr>baseValue = b, decimals = dec, symbol = symb\<rparr>)"

definition fromBase :: "int \<Rightarrow> nat \<Rightarrow> string option \<Rightarrow> Amount" where
  \<comment> \<open>on a bigint argument, where \<open>BigInt(amount)\<close> is the identity\<close>
  "fromBase amount dec symb = \<lparr>baseValue = amount, decimals = dec, symbol = symb\<rparr>"

definition toBase :: "Amount \<Rightarrow> int" where
  "toBase a = baseValue a"

definition toUnit :: "Amount \<Rightarrow> string" where
  "toUnit a =
     (if decimals a = 0 then bigintToString (baseValue a)
      else
        let valueStr = bigintToString (baseValue a);
            padded = padStart (decimals a + 1) CHR ''0'' valueStr;
            integer = slice_to_neg (decimals a) padded;
            fraction = slice_from_neg (decimals a) padded;
            cleanFraction = stripTrailingZeros fraction
        in if cleanFraction \<noteq> [] then integer @ ''.'' @ cleanFraction else integer)"

definition isCompatible :: "Amount \<Rightarrow> Amount \<Rightarrow> bool" where
  "isCompatible this other =
     (if decimals this \<noteq> decimals other then False
      else if symbol this \<noteq> None \<and> symbol other \<noteq> None \<and> symbol this \<noteq> symbol other
           then False
      else True)"

definition assertCompatible :: "Amount \<Rightarrow> Amount \<Rightarrow> amount_error + unit" where
  "assertCompatible this other =
     (if decimals this \<noteq> decimals other
        then Inl (DifferentDecimals (decimals this) (decimals other))
      else (case (symbol this, symbol other) of
              (Some a, Some b) \<Rightarrow> if a \<noteq> b then Inl (DifferentSymbols a b) else Inr ()
            | _ \<Rightarrow> Inr ()))"

definition coalesce :: "'a option \<Rightarrow> 'a option \<Rightarrow> 'a option" where
  \<comment> \<open>\<open>a ?? b\<close>\<close>
  "coalesce a b = (case a of None \<Rightarrow> b | Some x \<Rightarrow> Some x)"

definition add :: "Amount \<Rightarrow> Amount \<Rightarrow> amount_error + Amount" where
  "add this other =
     (case assertCompatible this other of
        Inl e \<Rightarrow> Inl e
      | Inr _ \<Rightarrow> Inr \<lparr>baseValue = baseValue this + baseValue other,
                     decimals = decimals this,
                     symbol = coalesce (symbol this) (symbol other)\<rparr>)"

definition subtract :: "Amount \<Rightarrow> Amount \<Rightarrow> amount_error + Amount" where
  "subtract this other =
     (case assertCompatible this other of
        Inl e \<Rightarrow> Inl e
      | Inr _ \<Rightarrow> Inr \<lparr>baseValue = baseValue this - baseValue other,
                     decimals = decimals this,
                     symbol = coalesce (symbol this) (symbol other)\<rparr>)"

definition scaleScalar :: "string \<Rightarrow> syntax_error + int" where
  \<comment> \<open>the conversion of the scalar that \<open>multiply\<close> and \<open>divide\<close> share, line for line\<close>
  "scaleScalar str =
     (let integer = integerPart str;
          fraction = fractionPart str;
          paddedFraction = take PRECISION (padEnd PRECISION CHR ''0'' fraction)
      in BigInt_of_string (integer @ paddedFraction))"

definition multiply :: "Amount \<Rightarrow> AmountInput \<Rightarrow> amount_error + Amount" where
  "multiply this multiplier =
     (let multiplierStr = inputToString multiplier
      in if \<not> matchesDecimal multiplierStr then Inl (InvalidMultiplier multiplierStr)
         else case scaleScalar multiplierStr of
                Inl _ \<Rightarrow> Inl BigIntSyntaxError
              | Inr scaledMultiplier \<Rightarrow>
                  Inr \<lparr>baseValue = bigint_div (baseValue this * scaledMultiplier) scaleFactor,
                       decimals = decimals this,
                       symbol = symbol this\<rparr>)"

definition divide :: "Amount \<Rightarrow> AmountInput \<Rightarrow> amount_error + Amount" where
  "divide this divisor =
     (let divisorStr = inputToString divisor
      in if \<not> matchesDecimal divisorStr then Inl (InvalidDivisor divisorStr)
         else case scaleScalar divisorStr of
                Inl _ \<Rightarrow> Inl BigIntSyntaxError
              | Inr scaledDivisor \<Rightarrow>
                  if scaledDivisor = 0 then Inl DivisionByZero
                  else
                    let scaledBase = baseValue this * scaleFactor
                    in Inr \<lparr>baseValue = bigint_div scaledBase scaledDivisor,
                            decimals = decimals this,
                            symbol = symbol this\<rparr>)"

definition eq :: "Amount \<Rightarrow> Amount \<Rightarrow> bool" where
  "eq this other = (if \<not> isCompatible this other then False else baseValue this = baseValue other)"

definition gt :: "Amount \<Rightarrow> Amount \<Rightarrow> bool" where
  "gt this other = (if \<not> isCompatible this other then False else baseValue this > baseValue other)"

definition gte :: "Amount \<Rightarrow> Amount \<Rightarrow> bool" where
  "gte this other = (if \<not> isCompatible this other then False else baseValue this \<ge> baseValue other)"

definition lt :: "Amount \<Rightarrow> Amount \<Rightarrow> bool" where
  "lt this other = (if \<not> isCompatible this other then False else baseValue this < baseValue other)"

definition lte :: "Amount \<Rightarrow> Amount \<Rightarrow> bool" where
  "lte this other = (if \<not> isCompatible this other then False else baseValue this \<le> baseValue other)"

section \<open>Reference notions for the numeral claims\<close>

text \<open>
  \<open>withoutTrailingZeros\<close> is the numeral with the trailing zeros of its fraction and a
  bare trailing point removed; \<open>canonicalNumeral\<close> also drops the redundant leading
  zeros of the integer part. \<open>unitRoundTrip s d sy\<close> is
  \<open>Amount.fromUnit(s, d, sy).toUnit()\<close>, and \<open>decimalValue\<close> is the number a
  numeral denotes.
\<close>

definition withoutTrailingZeros :: "string \<Rightarrow> string" where
  "withoutTrailingZeros s =
     (let f = stripTrailingZeros (fractionPart s)
      in if f = [] then integerPart s else integerPart s @ ''.'' @ f)"

definition canonicalNumeral :: "string \<Rightarrow> string" where
  "canonicalNumeral s =
     (let f = stripTrailingZeros (fractionPart s)
      in if f = [] then stripLeadingZeros (integerPart s)
         else stripLeadingZeros (integerPart s) @ ''.'' @ f)"

definition unitRoundTrip :: "string \<Rightarrow> nat \<Rightarrow> string option \<Rightarrow> amount_error + string" where
  "unitRoundTrip s d sy = (case fromUnit (Str s) d sy of Inl e \<Rightarrow> Inl e | Inr a \<Rightarrow> Inr (toUnit a))"

definition decimalValue :: "string \<Rightarrow> real" where
  "decimalValue s =
     real (digitsValue (integerPart s)) +
     real (digitsValue (fractionPart s)) / 10 ^ length (fractionPart s)"

section \<open>The Wallet class\<close>

text \<open>
  A method of the wallet is a sequence of calls to its collaborators: the network client,
  the account provider, the account object, the sponsor callback, the transaction handle
  and the progress observer. A run of a method is its outcome, either the value thrown or
  the value returned, together with the calls it made, in order. What each collaborator
  answers is a parameter of the model (the record \<open>World\<close> and the callback held by the
  wallet); \<open>await\<close> is sequencing.
\<close>

datatype thrown = JsError string | NonError

definition errorMessage :: "thrown \<Rightarrow> string" where
  \<comment> \<open>\<open>error instanceof Error ? error.message : "Unknown error"\<close>\<close>
  "errorMessage error = (case error of JsError m \<Rightarrow> m | NonError \<Rightarrow> ''Unknown error'')"

datatype FeeMode = user_pays | sponsored

datatype DeployMode = never | if_needed | always

datatype ProgressStep = CONNECTED | CHECK_DEPLOYED | DEPLOYING | READY

record Call =
  contractAddress :: string
  entrypoint :: string
  calldata :: "string list"

type_synonym SponsorPolicyHint = "(string \<times> string) list"

type_synonym ResourceBounds = "(string \<times> int \<times> int) list"

record SponsorshipRequest =
  calls :: "Call list"
  callerAddress :: string
  chainId :: string
  policyHint :: "SponsorPolicyHint option"

record SponsorshipResponse =
  resourceBounds :: "ResourceBounds option"
  paymasterData :: "string list option"
  accountDeploymentData :: "string list option"
  tip :: "int option"

record UniversalDetails =
  details_resourceBounds :: "ResourceBounds option"
  details_paymasterData :: "string list option"
  details_accountDeploymentData :: "string list option"
  details_tip :: "int option"

record DeployPayload =
  classHash :: string
  constructorCalldata :: "string list"
  addressSalt :: string
  payload_resourceBounds :: "ResourceBounds option"
  payload_paymasterData :: "string list option"
  payload_accountDeploymentData :: "string list option"
  payload_tip :: "int option"

datatype Tx = Tx string

datatype ExecuteInvocation = FunctionInvocation | RevertedInvocation "string option"

record TransactionTrace =
  execute_invocation :: "ExecuteInvocation option"

record SimulationResult =
  transaction_trace :: "TransactionTrace option"

datatype PreflightResult = Ok | NotOk string

record Options =
  feeMode :: "FeeMode option"
  sponsorPolicyHint :: "SponsorPolicyHint option"
  deployMode :: "DeployMode option"
  onProgress :: "(ProgressStep \<Rightarrow> thrown + unit) option"

record PreflightOptions =
  kind :: string
  preflight_calls :: "Call list option"
  preflight_feeMode :: "FeeMode option"

record Wallet =
  address :: string
  config_chainId :: string
  sponsor :: "(SponsorshipRequest \<Rightarrow> thrown + SponsorshipResponse) option"
  defaultFeeMode :: FeeMode
  defaultPolicyHint :: "SponsorPolicyHint option"

record World =
  getClassHashAt :: "string \<Rightarrow> thrown + string option"
  getClassHash :: "thrown + string"
  getPublicKey :: "thrown + string"
  getConstructorCalldata :: "string \<Rightarrow> thrown + string list"
  deployAccount :: "DeployPayload \<Rightarrow> thrown + string"
  account_execute :: "Call list \<Rightarrow> UniversalDetails option \<Rightarrow> thrown + string"
  simulateTransaction :: "Call list \<Rightarrow> thrown + SimulationResult list"
  tx_wait :: "Tx \<Rightarrow> thrown + unit"

datatype Event =
    Progress ProgressStep
  | DeployInvoked
  | ClassHashQueried string
  | SponsorAsked SponsorshipRequest
  | DeployAccountSubmitted DeployPayload
  | ExecuteSubmitted "Call list" "UniversalDetails option"
  | Simulated "Call list"
  | Waited Tx

type_synonym 'a run = "(thrown + 'a) \<times> Event list"

definition return :: "'a \<Rightarrow> 'a run" where
  "return x = (Inr x, [])"

definition throw :: "thrown \<Rightarrow> 'a run" where
  "throw e = (Inl e, [])"

definition call :: "Event list \<Rightarrow> thrown + 'a \<Rightarrow> 'a run" where
  \<comment> \<open>a call to a collaborator: its answer, and the record of the call\<close>
  "call evs answer = (answer, evs)"

definition andThen :: "'a run \<Rightarrow> ('a \<Rightarrow> 'b run) \<Rightarrow> 'b run" where
  \<comment> \<open>sequencing: a thrown value ends the run\<close>
  "andThen m f =
     (case m of
        (Inl e, t) \<Rightarrow> (Inl e, t)
      | (Inr x, t) \<Rightarrow> (case f x of (r, t') \<Rightarrow> (r, t @ t')))"

definition tryCatch :: "'a run \<Rightarrow> (thrown \<Rightarrow> 'a run) \<Rightarrow> 'a run" where
  \<comment> \<open>\<open>try { m } catch (error) { handler }\<close>\<close>
  "tryCatch m handler =
     (case m of
        (Inl e, t) \<Rightarrow> (case handler e of (r, t') \<Rightarrow> (r, t @ t'))
      | (Inr x, t) \<Rightarrow> (Inr x, t))"

definition truthy :: "string option \<Rightarrow> bool" where
  \<comment> \<open>\<open>!!classHash\<close>: neither undefined nor the empty string\<close>
  "truthy v = (case v of None \<Rightarrow> False | Some s \<Rightarrow> s \<noteq> [])"

definition isDeployed :: "Wallet \<Rightarrow> World \<Rightarrow> bool run" where
  "isDeployed this world =
     tryCatch
       (andThen (call [ClassHashQueried (address this)] (getClassHashAt world (address this)))
          (\<lambda>classHash. return (truthy classHash)))
       (\<lambda>_. return False)"

definition buildFeeOptions :: "SponsorshipResponse \<Rightarrow> UniversalDetails" where
  "buildFeeOptions sponsorship =
     \<lparr>details_resourceBounds = resourceBounds sponsorship,
      details_paymasterData = paymasterData sponsorship,
      details_accountDeploymentData = accountDeploymentData sponsorship,
      details_tip = tip sponsorship\<rparr>"

definition requestSponsorship ::
  "Wallet \<Rightarrow> Call list \<Rightarrow> SponsorPolicyHint option \<Rightarrow> SponsorshipResponse run" where
  "requestSponsorship this cs hint =
     (case sponsor this of
        None \<Rightarrow>
          throw (JsError (''Sponsor not configured. Set sponsor in SDKConfig to use feeMode='sponsored'' @ [CHR 0x27]))
      | Some getSponsorship \<Rightarrow>
          let request = \<lparr>calls = cs, callerAddress = address this,
                         chainId = config_chainId this, policyHint = hint\<rparr>
          in tryCatch
               (call [SponsorAsked request] (getSponsorship request))
               (\<lambda>error. throw (JsError (''Sponsorship rejected: '' @ errorMessage error))))"

definition spreadFeeOptions :: "DeployPayload \<Rightarrow> UniversalDetails \<Rightarrow> DeployPayload" where
  \<comment> \<open>\<open>{...deployPayload, ...details}\<close>: one object, in which each key that the fee options
      define overrides the payload's\<close>
  "spreadFeeOptions payload details =
     payload\<lparr>payload_resourceBounds :=
               coalesce (details_resourceBounds details) (payload_resourceBounds payload),
             payload_paymasterData :=
               coalesce (details_paymasterData details) (payload_paymasterData payload),
             payload_accountDeploymentData :=
               coalesce (details_accountDeploymentData details)
                 (payload_accountDeploymentData payload),
             payload_tip := coalesce (details_tip details) (payload_tip payload)\<rparr>"

definition deploy :: "Wallet \<Rightarrow> World \<Rightarrow> Options \<Rightarrow> Tx run" where
  \<comment> \<open>the first event records that the method was entered; the three calls to the
      account provider leave no event\<close>
  "deploy this world options =
     andThen (call [DeployInvoked] (Inr ())) (\<lambda>_.
     let mode = (case feeMode options of None \<Rightarrow> defaultFeeMode this | Some m \<Rightarrow> m);
         hint = coalesce (sponsorPolicyHint options) (defaultPolicyHint this)
     in andThen (call [] (getClassHash world)) (\<lambda>ch.
        andThen (call [] (getPublicKey world)) (\<lambda>publicKey.
        andThen (call [] (getConstructorCalldata world publicKey)) (\<lambda>cd.
        let deployPayload =
              \<lparr>classHash = ch, constructorCalldata = cd, addressSalt = publicKey,
               payload_resourceBounds = None, payload_paymasterData = None,
               payload_accountDeploymentData = None, payload_tip = None\<rparr>
        in if mode = sponsored then
             andThen (requestSponsorship this [] hint) (\<lambda>sponsorship.
             let sponsoredPayload = spreadFeeOptions deployPayload (buildFeeOptions sponsorship)
             in andThen (call [DeployAccountSubmitted sponsoredPayload]
                           (deployAccount world sponsoredPayload))
                  (\<lambda>transaction_hash. return (Tx transaction_hash)))
           else
             andThen (call [DeployAccountSubmitted deployPayload]
                        (deployAccount world deployPayload))
               (\<lambda>transaction_hash. return (Tx transaction_hash))))))"

definition execute :: "Wallet \<Rightarrow> World \<Rightarrow> Call list \<Rightarrow> Options \<Rightarrow> Tx run" where
  "execute this world cs options =
     (let mode = (case feeMode options of None \<Rightarrow> defaultFeeMode this | Some m \<Rightarrow> m);
          hint = coalesce (sponsorPolicyHint options) (defaultPolicyHint this)
      in if mode = sponsored then
           andThen (requestSponsorship this cs hint) (\<lambda>sponsorship.
           andThen (call [ExecuteSubmitted cs (Some (buildFeeOptions sponsorship))]
                      (account_execute world cs (Some (buildFeeOptions sponsorship))))
             (\<lambda>transaction_hash. return (Tx transaction_hash)))
         else
           andThen (call [ExecuteSubmitted cs None] (account_execute world cs None))
             (\<lambda>transaction_hash. return (Tx transaction_hash)))"

definition progress :: "Options \<Rightarrow> ProgressStep \<Rightarrow> unit run" where
  \<comment> \<open>\<open>onProgress?.({ step })\<close>: the callback, when there is one, is called with the step;
      it returns or throws, and what it throws is not caught\<close>
  "progress options step =
     (case onProgress options of
        None \<Rightarrow> return ()
      | Some callback \<Rightarrow> call [Progress step] (callback step))"

definition ensureReady :: "Wallet \<Rightarrow> World \<Rightarrow> Options \<Rightarrow> unit run" where
  "ensureReady this world options =
     (let mode = (case deployMode options of None \<Rightarrow> if_needed | Some m \<Rightarrow> m)
      in andThen (progress options CONNECTED) (\<lambda>_.
         andThen (progress options CHECK_DEPLOYED) (\<lambda>_.
         andThen (isDeployed this world) (\<lambda>deployed.
           if deployed \<and> mode \<noteq> always then progress options READY
           else if \<not> deployed \<and> mode = never then
             throw (JsError (''Account not deployed and deploy mode is 'never'' @ [CHR 0x27]))
           else
             andThen (progress options DEPLOYING) (\<lambda>_.
             andThen (deploy this world options) (\<lambda>tx.
             andThen (call [Waited tx] (tx_wait world tx)) (\<lambda>_.
             progress options READY)))))))"

definition revertReason :: "SimulationResult list \<Rightarrow> string option" where
  \<comment> \<open>the reason \<open>preflight\<close> returns from the first simulation result, if it has a trace
      whose \<open>execute_invocation\<close> carries a \<open>revert_reason\<close> key\<close>
  "revertReason simulation =
     (case simulation of
        [] \<Rightarrow> None
      | result # _ \<Rightarrow>
          (case transaction_trace result of
             None \<Rightarrow> None
           | Some trace \<Rightarrow>
               (case execute_invocation trace of
                  None \<Rightarrow> None
                | Some FunctionInvocation \<Rightarrow> None
                | Some (RevertedInvocation reason) \<Rightarrow>
                    Some (case reason of None \<Rightarrow> ''Simulation failed'' | Some r \<Rightarrow> r))))"

definition preflightChecks :: "Wallet \<Rightarrow> World \<Rightarrow> PreflightOptions \<Rightarrow> PreflightResult run" where
  \<comment> \<open>the body of the \<open>try\<close> block of \<open>preflight\<close>\<close>
  "preflightChecks this world options =
     (let cs = (case preflight_calls options of None \<Rightarrow> [] | Some c \<Rightarrow> c);
          mode = (case preflight_feeMode options of None \<Rightarrow> defaultFeeMode this | Some m \<Rightarrow> m)
      in andThen (isDeployed this world) (\<lambda>deployed.
           if \<not> deployed \<and> kind options \<noteq> ''execute'' then return (NotOk ''Account not deployed'')
           else if mode = sponsored \<and> sponsor this = None then return (NotOk ''Sponsor not configured'')
           else if length cs > 0 then
             andThen (call [Simulated cs] (simulateTransaction world cs)) (\<lambda>simulation.
               case revertReason simulation of
                 Some reason \<Rightarrow> return (NotOk reason)
               | None \<Rightarrow> return Ok)
           else return Ok))"

definition preflight :: "Wallet \<Rightarrow> World \<Rightarrow> PreflightOptions \<Rightarrow> PreflightResult run" where
  "preflight this world options =
     tryCatch (preflightChecks this world options)
       (\<lambda>error. return (NotOk (errorMessage error)))"

definition progressSteps :: "Event list \<Rightarrow> ProgressStep list" where
  "progressSteps t = concat (map (\<lambda>e. case e of Progress s \<Rightarrow> [s] | _ \<Rightarrow> []) t)"

definition deployInvocations :: "Event list \<Rightarrow> nat" where
  "deployInvocations t = length (filter (\<lambda>e. e = DeployInvoked) t)"

subsection \<open>Derived notions\<close>

definition sponsorshipRequestFor ::
  "Wallet \<Rightarrow> Call list \<Rightarrow> Options \<Rightarrow> SponsorshipRequest" where
  \<comment> \<open>the request that \<open>execute\<close> and \<open>deploy\<close> hand to \<open>requestSponsorship\<close>\<close>
  "sponsorshipRequestFor w cs opts =
     \<lparr>calls = cs, callerAddress = address w, chainId = config_chainId w,
      policyHint = coalesce (sponsorPolicyHint opts) (defaultPolicyHint w)\<rparr>"

definition effectiveFeeMode :: "Wallet \<Rightarrow> Options \<Rightarrow> FeeMode" where
  \<comment> \<open>\<open>options.feeMode ?? this.defaultFeeMode\<close>\<close>
  "effectiveFeeMode w opts = (case feeMode opts of None \<Rightarrow> defaultFeeMode w | Some m \<Rightarrow> m)"

subsection \<open>A wallet, networks and options for the examples\<close>

definition testWallet :: Wallet where
  "testWallet =
     \<lparr>address = ''0x1'', config_chainId = ''SN_SEPOLIA'',
      sponsor = Some (\<lambda>_. Inl (JsError ''Rate limit exceeded'')),
      defaultFeeMode = sponsored, defaultPolicyHint = None\<rparr>"

definition undeployedWorld :: World where
  \<comment> \<open>a network with no class hash at any address, on which every submission succeeds\<close>
  "undeployedWorld =
     \<lparr>getClassHashAt = (\<lambda>_. Inr None),
      getClassHash = Inr ''0xc1a55'',
      getPublicKey = Inr ''0xabc'',
      getConstructorCalldata = (\<lambda>k. Inr [k]),
      deployAccount = (\<lambda>_. Inr ''0xd''),
      account_execute = (\<lambda>_ _. Inr ''0xe''),
      simulateTransaction = (\<lambda>_. Inl (JsError ''network down'')),
      tx_wait = (\<lambda>_. Inr ())\<rparr>"

definition failingDeployWorld :: World where
  \<comment> \<open>the same network, on which the submission of the deployment is refused\<close>
  "failingDeployWorld =
     undeployedWorld\<lparr>deployAccount := (\<lambda>_. Inl (JsError ''insufficient balance''))\<rparr>"

definition observed :: Options where
  \<comment> \<open>default options with a progress callback that returns normally, paying fees directly\<close>
  "observed =
     \<lparr>feeMode = Some user_pays, sponsorPolicyHint = None, deployMode = None,
      onProgress = Some (\<lambda>_. Inr ())\<rparr>"

definition noOptions :: Options where
  "noOptions = \<lparr>feeMode = None, sponsorPolicyHint = None, deployMode = None, onProgress = None\<rparr>"

definition transferCall :: Call where
  "transferCall = \<lparr>contractAddress = ''0x123'', entrypoint = ''transfer'',
                   calldata = [''0x456'', ''100'']\<rparr>"

definition executePreflight :: PreflightOptions where
  "executePreflight =
     \<lparr>kind = ''execute'', preflight_calls = Some [transferCall], preflight_feeMode = None\<rparr>"

section \<open>Digits and numerals\<close>

lemma digitValue_lt10: "isDigit c \<Longrightarrow> digitValue c < 10"
  by (auto simp: isDigit_def digitValue_def)

lemma digitChar_digitValue: "isDigit c \<Longrightarrow> digitChar (digitValue c) = c"
  by (auto simp: isDigit_def digitValue_def digitChar_def)

lemma isDigit_digitChar_aux: "n < 10 \<Longrightarrow> n \<in> {0,1,2,3,4,5,6,7,8,9::nat}"
  by auto

lemma digitValue_digitChar: "n < 10 \<Longrightarrow> digitValue (digitChar n) = n"
  using isDigit_digitChar_aux [of n] by (auto simp: digitValue_def digitChar_def)

lemma isDigit_digitChar: "n < 10 \<Longrightarrow> isDigit (digitChar n)"
proof -
  assume "n < 10"
  then have "n \<in> {0,1,2,3,4,5,6,7,8,9}" by auto
  then show ?thesis by (auto simp: isDigit_def digitChar_def)
qed

lemma digitValue_zero_iff: "isDigit c \<Longrightarrow> digitValue c = 0 \<longleftrightarrow> c = CHR ''0''"
  by (auto simp: isDigit_def digitValue_def)

lemma dot_not_digit: "\<not> isDigit CHR ''.''"
  by (simp add: isDigit_def)

lemma digitsValue_snoc: "digitsValue (s @ [c]) = 10 * digitsValue s + digitValue c"
  by (simp add: digitsValue_def)

lemma digitsValue_Nil: "digitsValue [] = 0"
  by (simp add: digitsValue_def)

lemma digitsValue_append: "digitsValue (s @ t) = digitsValue s * 10 ^ length t + digitsValue t"
proof (induction t rule: rev_induct)
  case Nil
  then show ?case by (simp add: digitsValue_Nil)
next
  case (snoc c t)
  have "digitsValue (s @ t @ [c]) = 10 * digitsValue (s @ t) + digitValue c"
    using digitsValue_snoc [of "s @ t" c] by simp
  then show ?case using snoc by (simp add: digitsValue_snoc algebra_simps)
qed

lemma digitsValue_zeros: "digitsValue (replicate k CHR ''0'') = 0"
  by (induction k) (simp_all add: digitsValue_Nil digitsValue_append [of "[c]" for c, simplified] digitsValue_def digitValue_def)

lemma natToString_digits: "list_all isDigit (natToString n)"
proof (induction n rule: natToString.induct)
  case (1 n)
  show ?case
  proof (cases "n < 10")
    case True
    then show ?thesis by (subst natToString.simps) (simp add: isDigit_digitChar)
  next
    case False
    then have "list_all isDigit (natToString (n div 10))" using 1 by simp
    moreover have "isDigit (digitChar (n mod 10))" by (simp add: isDigit_digitChar)
    ultimately show ?thesis using False by (subst natToString.simps) simp
  qed
qed

lemma natToString_nonempty: "natToString n \<noteq> []"
  by (subst natToString.simps) simp

lemma digitsValue_natToString: "digitsValue (natToString n) = n"
proof (induction n rule: natToString.induct)
  case (1 n)
  show ?case
  proof (cases "n < 10")
    case True
    then show ?thesis
      by (subst natToString.simps) (simp add: digitsValue_def digitValue_digitChar)
  next
    case False
    then have "digitsValue (natToString (n div 10)) = n div 10" using 1 by simp
    then show ?thesis using False
      by (subst natToString.simps) (simp add: digitsValue_snoc digitValue_digitChar)
  qed
qed

lemma digitsValue_zero_iff:
  "list_all isDigit s \<Longrightarrow> digitsValue s = 0 \<longleftrightarrow> (\<forall>c \<in> set s. c = CHR ''0'')"
proof (induction s rule: rev_induct)
  case Nil
  then show ?case by (simp add: digitsValue_Nil)
next
  case (snoc c s)
  then show ?case by (auto simp: digitsValue_snoc digitValue_zero_iff)
qed

lemma dropWhile_zero_Nil_iff: "dropWhile (\<lambda>c. c = CHR ''0'') s = [] \<longleftrightarrow> (\<forall>c \<in> set s. c = CHR ''0'')"
  by (induction s) auto

lemma natToString_step:
  assumes "b < 10"
  shows "natToString (10 * a + b) = (if a = 0 then [digitChar b] else natToString a @ [digitChar b])"
proof (cases "a = 0")
  case True
  then show ?thesis using assms by (subst natToString.simps) simp
next
  case False
  then have ge: "\<not> 10 * a + b < 10" by simp
  have d: "(10 * a + b) div 10 = a" using assms by simp
  have m: "(10 * a + b) mod 10 = b" using assms by simp
  show ?thesis using False by (subst natToString.simps) (simp only: ge d m if_False)
qed

lemma natToString_digitsValue:
  "list_all isDigit s \<Longrightarrow> s \<noteq> [] \<Longrightarrow> natToString (digitsValue s) = stripLeadingZeros s"
proof (induction s rule: rev_induct)
  case Nil
  then show ?case by simp
next
  case (snoc c s)
  have dc: "isDigit c" and ds: "list_all isDigit s" using snoc.prems by simp_all
  have lt: "digitValue c < 10" using dc by (rule digitValue_lt10)
  show ?case
  proof (cases "digitsValue s = 0")
    case True
    then have allz: "\<forall>x \<in> set s. x = CHR ''0''" using digitsValue_zero_iff [OF ds] by simp
    then have dw: "dropWhile (\<lambda>c. c = CHR ''0'') (s @ [c]) = (if c = CHR ''0'' then [] else [c])"
      by (simp add: dropWhile_append)
    have "natToString (digitsValue (s @ [c])) = [digitChar (digitValue c)]"
      unfolding digitsValue_snoc using True natToString_step [OF lt, of "digitsValue s"] by simp
    also have "\<dots> = [c]" using dc by (simp add: digitChar_digitValue)
    finally show ?thesis using dw by (auto simp: stripLeadingZeros_def)
  next
    case False
    then have sne: "s \<noteq> []" by (auto simp: digitsValue_Nil)
    have "\<not> (\<forall>x \<in> set s. x = CHR ''0'')"
      using False digitsValue_zero_iff [OF ds] by simp
    then have nz: "dropWhile (\<lambda>c. c = CHR ''0'') s \<noteq> []"
      unfolding dropWhile_zero_Nil_iff .
    have ih: "natToString (digitsValue s) = stripLeadingZeros s" using snoc.IH ds sne by simp
    have "natToString (digitsValue (s @ [c])) = natToString (digitsValue s) @ [digitChar (digitValue c)]"
      unfolding digitsValue_snoc using False natToString_step [OF lt, of "digitsValue s"] by simp
    also have "\<dots> = stripLeadingZeros s @ [c]" using ih dc by (simp add: digitChar_digitValue)
    also have "\<dots> = stripLeadingZeros (s @ [c])"
      using nz by (simp add: stripLeadingZeros_def dropWhile_append1 Let_def dropWhile_append)
    finally show ?thesis .
  qed
qed

lemma dropWhile_replicate_same: "P x \<Longrightarrow> dropWhile P (replicate k x @ ys) = dropWhile P ys"
  by (induction k) simp_all

lemma stripTrailingZeros_pad: "stripTrailingZeros (f @ replicate k CHR ''0'') = stripTrailingZeros f"
  by (simp add: stripTrailingZeros_def dropWhile_replicate_same)

lemma split_on_no_sep: "sep \<notin> set s \<Longrightarrow> split_on sep s = [s]"
  by (induction s) auto

lemma split_on_append_sep:
  "sep \<notin> set i \<Longrightarrow> split_on sep (i @ sep # f) = i # split_on sep f"
  by (induction i) auto

lemma digits_no_dot: "list_all isDigit s \<Longrightarrow> CHR ''.'' \<notin> set s"
  using dot_not_digit by (auto simp: list_all_iff)

lemma matchesDecimal_iff:
  "matchesDecimal s \<longleftrightarrow>
     (s \<noteq> [] \<and> list_all isDigit s) \<or>
     (\<exists>i f. s = i @ CHR ''.'' # f \<and> i \<noteq> [] \<and> list_all isDigit i \<and> f \<noteq> [] \<and> list_all isDigit f)"
proof
  assume m: "matchesDecimal s"
  define i where "i = takeWhile isDigit s"
  define r where "r = dropWhile isDigit s"
  have s: "s = i @ r" by (simp add: i_def r_def)
  have i1: "i \<noteq> []" using m unfolding matchesDecimal_def Let_def i_def by simp
  have i2: "list_all isDigit i" unfolding i_def list_all_iff by (auto dest: set_takeWhileD)
  have r: "case r of [] \<Rightarrow> True | c # f \<Rightarrow> c = CHR ''.'' \<and> f \<noteq> [] \<and> list_all isDigit f"
    using m unfolding matchesDecimal_def Let_def r_def by simp
  show "(s \<noteq> [] \<and> list_all isDigit s) \<or>
     (\<exists>i f. s = i @ CHR ''.'' # f \<and> i \<noteq> [] \<and> list_all isDigit i \<and> f \<noteq> [] \<and> list_all isDigit f)"
  proof (cases r)
    case Nil
    then have "s = i" using s by simp
    then show ?thesis using i1 i2 by simp
  next
    case (Cons c f)
    then have "c = CHR ''.''" "f \<noteq> []" "list_all isDigit f"
      using r by simp_all
    moreover have "s = i @ c # f" using s Cons by simp
    ultimately show ?thesis using i1 i2 by blast
  qed
next
  assume "(s \<noteq> [] \<and> list_all isDigit s) \<or>
     (\<exists>i f. s = i @ CHR ''.'' # f \<and> i \<noteq> [] \<and> list_all isDigit i \<and> f \<noteq> [] \<and> list_all isDigit f)"
  then show "matchesDecimal s"
  proof
    assume a: "s \<noteq> [] \<and> list_all isDigit s"
    then have all: "\<forall>x \<in> set s. isDigit x" by (simp add: list_all_iff)
    have tw: "takeWhile isDigit s = s" using all by (rule takeWhile_eq_all_conv [THEN iffD2])
    have dw: "dropWhile isDigit s = []" using all by simp
    show ?thesis unfolding matchesDecimal_def Let_def tw dw using a by simp
  next
    assume "\<exists>i f. s = i @ CHR ''.'' # f \<and> i \<noteq> [] \<and> list_all isDigit i \<and> f \<noteq> [] \<and> list_all isDigit f"
    then obtain i f where s: "s = i @ CHR ''.'' # f" and i: "i \<noteq> []" "list_all isDigit i"
      and f: "f \<noteq> []" "list_all isDigit f" by blast
    have tw: "takeWhile isDigit s = i" and dw: "dropWhile isDigit s = CHR ''.'' # f"
      using s i dot_not_digit by (auto simp: list_all_iff takeWhile_append2 dropWhile_append2 takeWhile_tail dropWhile_append3)
    show ?thesis unfolding matchesDecimal_def Let_def tw dw using i f by simp
  qed
qed

lemma parts_of_integer:
  assumes "list_all isDigit s"
  shows "integerPart s = s" and "fractionPart s = []"
  using split_on_no_sep [OF digits_no_dot [OF assms]]
  by (simp_all add: integerPart_def fractionPart_def)

lemma parts_of_fraction:
  assumes "list_all isDigit i" and "list_all isDigit f"
  shows "integerPart (i @ CHR ''.'' # f) = i" and "fractionPart (i @ CHR ''.'' # f) = f"
  using split_on_append_sep [OF digits_no_dot [OF assms(1)], of f]
    split_on_no_sep [OF digits_no_dot [OF assms(2)]]
  by (simp_all add: integerPart_def fractionPart_def)

lemma matchesDecimal_parts:
  assumes "matchesDecimal s"
  shows "integerPart s \<noteq> []" and "list_all isDigit (integerPart s)"
    and "list_all isDigit (fractionPart s)"
    and "s = (if fractionPart s = [] then integerPart s
              else integerPart s @ CHR ''.'' # fractionPart s)"
proof -
  from assms consider
    (int) "s \<noteq> []" "list_all isDigit s"
  | (frac) i f where "s = i @ CHR ''.'' # f" "i \<noteq> []" "list_all isDigit i" "f \<noteq> []" "list_all isDigit f"
    unfolding matchesDecimal_iff by blast
  then have "integerPart s \<noteq> [] \<and> list_all isDigit (integerPart s) \<and>
     list_all isDigit (fractionPart s) \<and>
     s = (if fractionPart s = [] then integerPart s
              else integerPart s @ CHR ''.'' # fractionPart s)"
  proof cases
    case int
    then show ?thesis by (simp add: parts_of_integer)
  next
    case frac
    then show ?thesis by (simp add: parts_of_fraction)
  qed
  then show "integerPart s \<noteq> []" and "list_all isDigit (integerPart s)"
    and "list_all isDigit (fractionPart s)"
    and "s = (if fractionPart s = [] then integerPart s
              else integerPart s @ CHR ''.'' # fractionPart s)"
    by blast+
qed

lemma zeros_digits: "list_all isDigit (replicate k CHR ''0'')"
  by (simp add: list_all_iff isDigit_def)

lemma fromUnit_eq:
  "fromUnit amount d sy =
     (let s = inputToString amount in
      if \<not> matchesDecimal s then Inl (InvalidUnitAmount s)
      else if d < length (fractionPart s) then Inl (PrecisionOverflow s d)
      else Inr \<lparr>baseValue = int (digitsValue
                     (integerPart s @ fractionPart s @
                        replicate (d - length (fractionPart s)) CHR ''0'')),
                decimals = d, symbol = sy\<rparr>)"
proof (cases "matchesDecimal (inputToString amount)")
  case False
  then show ?thesis by (simp add: fromUnit_def)
next
  case True
  note p = matchesDecimal_parts [OF True]
  have "list_all isDigit (integerPart (inputToString amount) @
          padEnd d CHR ''0'' (fractionPart (inputToString amount)))"
    using p(2,3) by (simp add: padEnd_def zeros_digits)
  then show ?thesis using True
    by (simp add: fromUnit_def Let_def BigInt_of_string_def padEnd_def)
qed

lemma split_leading:
  "p = replicate (length p - length (dropWhile (\<lambda>c. c = x) p)) x @ dropWhile (\<lambda>c. c = x) p"
proof (induction p)
  case Nil
  then show ?case by simp
next
  case (Cons a p)
  have le: "length (dropWhile (\<lambda>c. c = x) p) \<le> length p" by (rule length_dropWhile_le)
  show ?case
  proof (cases "a = x")
    case True
    then show ?thesis using Cons le by (simp add: Suc_diff_le)
  next
    case False
    then show ?thesis by simp
  qed
qed

lemma padStart_stripLeadingZeros:
  assumes "i \<noteq> []"
  shows "padStart (length p + 1) CHR ''0'' (stripLeadingZeros (i @ p)) = stripLeadingZeros i @ p"
proof (cases "dropWhile (\<lambda>c. c = CHR ''0'') i = []")
  case False
  then obtain x where x: "x \<in> set i" "x \<noteq> CHR ''0''"
    unfolding dropWhile_zero_Nil_iff by blast
  have dw: "dropWhile (\<lambda>c. c = CHR ''0'') (i @ p) = dropWhile (\<lambda>c. c = CHR ''0'') i @ p"
    using x by (simp add: dropWhile_append1)
  define t where "t = dropWhile (\<lambda>c. c = CHR ''0'') i"
  have t: "t \<noteq> []" using False by (simp add: t_def)
  then have len: "length p + 1 - length (t @ p) = 0" by (cases t) simp_all
  have a: "stripLeadingZeros (i @ p) = t @ p"
    unfolding stripLeadingZeros_def Let_def dw t_def [symmetric] using t by simp
  have b: "stripLeadingZeros i = t"
    unfolding stripLeadingZeros_def Let_def t_def [symmetric] using t by simp
  show ?thesis unfolding a b padStart_def len by simp
next
  case True
  then have allz: "\<forall>c \<in> set i. c = CHR ''0''" unfolding dropWhile_zero_Nil_iff .
  define u where "u = dropWhile (\<lambda>c. c = CHR ''0'') p"
  have dw: "dropWhile (\<lambda>c. c = CHR ''0'') (i @ p) = u"
    using allz by (simp add: u_def)
  have p: "p = replicate (length p - length u) CHR ''0'' @ u"
    unfolding u_def by (rule split_leading)
  have le: "length u \<le> length p" unfolding u_def by (rule length_dropWhile_le)
  have si: "stripLeadingZeros i = ''0''" using True by (simp add: stripLeadingZeros_def)
  have sa: "stripLeadingZeros (i @ p) = (if u = [] then ''0'' else u)"
    unfolding stripLeadingZeros_def Let_def dw by simp
  show ?thesis
  proof (cases "u = []")
    case True
    then have "p = replicate (length p) CHR ''0''" using p by simp
    then have "replicate (length p) CHR ''0'' @ ''0'' = CHR ''0'' # p"
      by (metis replicate_Suc replicate_append_same)
    then show ?thesis unfolding sa si padStart_def using True by simp
  next
    case False
    have "replicate (length p + 1 - length u) CHR ''0'' @ u
            = CHR ''0'' # replicate (length p - length u) CHR ''0'' @ u"
      using le by (simp add: Suc_diff_le)
    also have "\<dots> = CHR ''0'' # p" using p by simp
    finally show ?thesis unfolding sa si padStart_def using False by simp
  qed
qed

lemma stripLeadingZeros_nonempty: "stripLeadingZeros s \<noteq> []"
  by (simp add: stripLeadingZeros_def Let_def)

lemma toUnit_digits:
  assumes i: "i \<noteq> []" "list_all isDigit i" and p: "list_all isDigit p" and d: "length p = d"
  shows "toUnit \<lparr>baseValue = int (digitsValue (i @ p)), decimals = d, symbol = sy\<rparr> =
           (if stripTrailingZeros p \<noteq> [] then stripLeadingZeros i @ ''.'' @ stripTrailingZeros p
            else stripLeadingZeros i)"
proof -
  have str: "bigintToString (int (digitsValue (i @ p))) = stripLeadingZeros (i @ p)"
    using natToString_digitsValue [of "i @ p"] i p by (simp add: bigintToString_def)
  show ?thesis
  proof (cases "d = 0")
    case True
    then have "p = []" using d by simp
    then show ?thesis using True str by (simp add: toUnit_def stripTrailingZeros_def)
  next
    case False
    have pad: "padStart (Suc d) CHR ''0'' (stripLeadingZeros (i @ p)) = stripLeadingZeros i @ p"
      using padStart_stripLeadingZeros [OF i(1), of p] d by simp
    have a: "slice_to_neg d (stripLeadingZeros i @ p) = stripLeadingZeros i"
      using d by (simp add: slice_to_neg_def)
    have b: "slice_from_neg d (stripLeadingZeros i @ p) = p"
      using d by (simp add: slice_from_neg_def)
    show ?thesis using False by (simp add: toUnit_def str pad a b Let_def)
  qed
qed

lemma unitRoundTrip_canonical:
  assumes m: "matchesDecimal s" and le: "length (fractionPart s) \<le> d"
  shows "unitRoundTrip s d sy = Inr (canonicalNumeral s)"
proof -
  note p = matchesDecimal_parts [OF m]
  define z where "z = replicate (d - length (fractionPart s)) CHR ''0''"
  have fu: "fromUnit (Str s) d sy =
      Inr \<lparr>baseValue = int (digitsValue (integerPart s @ (fractionPart s @ z))),
           decimals = d, symbol = sy\<rparr>"
    using m le by (simp add: fromUnit_eq z_def)
  have dz: "list_all isDigit (fractionPart s @ z)"
    using p(3) by (simp add: z_def zeros_digits)
  have len: "length (fractionPart s @ z) = d" using le by (simp add: z_def)
  have st: "stripTrailingZeros (fractionPart s @ z) = stripTrailingZeros (fractionPart s)"
    unfolding z_def by (rule stripTrailingZeros_pad)
  show ?thesis
    unfolding unitRoundTrip_def fu sum.case toUnit_digits [OF p(1) p(2) dz len] st
    by (simp add: canonicalNumeral_def Let_def)
qed

lemma canonical_eq_withoutTrailingZeros:
  "stripLeadingZeros (integerPart s) = integerPart s \<Longrightarrow> canonicalNumeral s = withoutTrailingZeros s"
  by (simp add: canonicalNumeral_def withoutTrailingZeros_def Let_def)

section \<open>Round trip between unit strings and base values\<close>

text \<open>
  Claim C1, as amended. For every string \<open>s\<close> accepted by the grammar
  \<open>^\d+(\.\d+)?$\<close> whose fraction has at most \<open>d\<close> digits,
  \<open>fromUnit(s, d).toUnit()\<close> succeeds and returns \<open>s\<close> with the trailing zeros of the
  fraction, a bare trailing point and the redundant leading zeros of the integer part
  removed. When the integer part of \<open>s\<close> has no redundant leading zero, the result is
  \<open>s\<close> with only the trailing fractional zeros and the bare point removed.
\<close>

theorem fromUnit_toUnit_roundtrip:
  assumes "matchesDecimal s" and "length (fractionPart s) \<le> d"
  shows "unitRoundTrip s d sy = Inr (canonicalNumeral s) \<and>
         (stripLeadingZeros (integerPart s) = integerPart s \<longrightarrow>
            unitRoundTrip s d sy = Inr (withoutTrailingZeros s))"
  using unitRoundTrip_canonical [OF assms] canonical_eq_withoutTrailingZeros [of s] by simp

lemmas eval_str = matchesDecimal_def isDigit_def integerPart_def fractionPart_def
  stripLeadingZeros_def stripTrailingZeros_def withoutTrailingZeros_def canonicalNumeral_def

theorem fromUnit_toUnit_roundtrip_witness:
  "matchesDecimal ''4.0'' \<and> length (fractionPart ''4.0'') \<le> 18 \<and>
   stripLeadingZeros (integerPart ''4.0'') = integerPart ''4.0'' \<and>
   unitRoundTrip ''4.0'' 18 None = Inr ''4'' \<and> withoutTrailingZeros ''4.0'' = ''4''"
  using fromUnit_toUnit_roundtrip [of "''4.0''" 18 None]
  by (simp add: eval_str)

text \<open>
  The round trip does not give back a leading zero of the integer part:
  \<open>fromUnit("01.50", 2).toUnit()\<close> is \<open>"1.5"\<close>, not \<open>"01.5"\<close>.
\<close>

theorem roundtrip_leading_zero_counterexample:
  "matchesDecimal ''01.50'' \<and> length (fractionPart ''01.50'') \<le> 2 \<and>
   unitRoundTrip ''01.50'' 2 None = Inr ''1.5'' \<and>
   withoutTrailingZeros ''01.50'' = ''01.5'' \<and>
   unitRoundTrip ''01.50'' 2 None \<noteq> Inr (withoutTrailingZeros ''01.50'')"
  by code_simp

lemma digitsValue_pad: "digitsValue (f @ replicate k CHR ''0'') = digitsValue f * 10 ^ k"
  by (simp add: digitsValue_append digitsValue_zeros)

section \<open>Validation in \<open>fromUnit\<close>\<close>

text \<open>
  Claim C3, as amended. \<open>fromUnit\<close> fails exactly when the stringified value does not
  match the grammar or its fraction has more than \<open>decimals\<close> digits; otherwise the base
  value is the integer read from the integer part followed by the fraction padded on the
  right with zeros to exactly \<open>decimals\<close> digits, that is
  \<open>(integer * 10 ^ |fraction| + fraction) * 10 ^ (decimals - |fraction|)\<close>. The parse of
  the concatenated digits never fails.
\<close>

theorem fromUnit_throws_iff:
  "fromUnit amount d sy =
     (let s = inputToString amount; i = integerPart s; f = fractionPart s in
      if \<not> matchesDecimal s then Inl (InvalidUnitAmount s)
      else if d < length f then Inl (PrecisionOverflow s d)
      else Inr \<lparr>baseValue = int (digitsValue (i @ padEnd d CHR ''0'' f)),
                decimals = d, symbol = sy\<rparr>) \<and>
   (length (fractionPart (inputToString amount)) \<le> d \<longrightarrow>
      length (padEnd d CHR ''0'' (fractionPart (inputToString amount))) = d \<and>
      int (digitsValue (integerPart (inputToString amount) @
                        padEnd d CHR ''0'' (fractionPart (inputToString amount)))) =
        (int (digitsValue (integerPart (inputToString amount))) *
            10 ^ length (fractionPart (inputToString amount)) +
         int (digitsValue (fractionPart (inputToString amount)))) *
        10 ^ (d - length (fractionPart (inputToString amount))))"
proof -
  have "digitsValue (i @ f @ replicate k CHR ''0'') =
          (digitsValue i * 10 ^ length f + digitsValue f) * 10 ^ k" for i f k
    using digitsValue_append [of "i @ f" "replicate k CHR ''0''"] digitsValue_append [of i f]
    by (simp add: digitsValue_zeros)
  then show ?thesis
    by (simp add: fromUnit_eq Let_def padEnd_def)
qed

theorem fromUnit_throws_iff_witness:
  "length (fractionPart (inputToString (Str ''1.2''))) \<le> 2 \<and>
   fromUnit (Str ''1.2'') 2 (Some ''X'') =
     Inr \<lparr>baseValue = 120, decimals = 2, symbol = Some ''X''\<rparr> \<and>
   length (padEnd 2 CHR ''0'' (fractionPart ''1.2'')) = 2"
  using fromUnit_throws_iff [of "Str ''1.2''" 2 "Some ''X''"]
  by (simp add: eval_str padEnd_def digitsValue_def digitValue_def)

text \<open>
  A fraction of exactly \<open>decimals\<close> digits is accepted: \<open>fromUnit("1.23", 2, "X")\<close>
  succeeds with base value 123; three digits overflow.
\<close>

theorem fromUnit_two_places_counterexample:
  "fromUnit (Str ''1.23'') 2 (Some ''X'') =
     Inr \<lparr>baseValue = 123, decimals = 2, symbol = Some ''X''\<rparr>"
  by code_simp

lemma fromUnit_three_places_overflow:
  "fromUnit (Str ''1.234'') 2 (Some ''X'') = Inl (PrecisionOverflow ''1.234'' 2)"
  by code_simp

lemma fromUnit_rejects_sign_and_exponent:
  "fromUnit (Str ''-1'') 2 None = Inl (InvalidUnitAmount ''-1'')"
  "fromUnit (Str ''1e21'') 2 None = Inl (InvalidUnitAmount ''1e21'')"
  "fromUnit (Str ''abc'') 2 None = Inl (InvalidUnitAmount ''abc'')"
  "fromUnit (Str []) 2 None = Inl (InvalidUnitAmount [])"
  by code_simp+

section \<open>Scaling a scalar to eighteen fraction digits\<close>

lemma digitsValue_lt: "list_all isDigit s \<Longrightarrow> digitsValue s < 10 ^ length s"
proof (induction s rule: rev_induct)
  case Nil
  then show ?case by (simp add: digitsValue_Nil)
next
  case (snoc c s)
  then have "digitsValue s < 10 ^ length s" and "digitValue c < 10"
    by (simp_all add: digitValue_lt10)
  then have "10 * digitsValue s + digitValue c < 10 * 10 ^ length s" by linarith
  then show ?case by (simp add: digitsValue_snoc)
qed

lemma scaleScalar_eq:
  assumes "matchesDecimal m"
  shows "scaleScalar m = Inr (int (digitsValue
           (integerPart m @ take PRECISION (padEnd PRECISION CHR ''0'' (fractionPart m)))))"
proof -
  note p = matchesDecimal_parts [OF assms]
  have "list_all isDigit (padEnd PRECISION CHR ''0'' (fractionPart m))"
    using p(3) by (simp add: padEnd_def zeros_digits)
  then have "list_all isDigit (take PRECISION (padEnd PRECISION CHR ''0'' (fractionPart m)))"
    unfolding list_all_iff by (auto dest: in_set_takeD)
  then show ?thesis using p(2)
    by (simp add: scaleScalar_def Let_def BigInt_of_string_def)
qed

lemma scaled_fraction_floor:
  assumes f: "list_all isDigit f"
  shows "int (digitsValue (take PRECISION (padEnd PRECISION CHR ''0'' f))) =
           \<lfloor>real (digitsValue f) / 10 ^ length f * 10 ^ PRECISION\<rfloor>"
proof (cases "length f \<le> PRECISION")
  case True
  then have t: "take PRECISION (padEnd PRECISION CHR ''0'' f) = f @ replicate (PRECISION - length f) CHR ''0''"
    by (simp add: padEnd_def)
  have e: "(10::real) ^ PRECISION = 10 ^ length f * 10 ^ (PRECISION - length f)"
    using True by (simp add: power_add [symmetric])
  have "real (digitsValue f) / 10 ^ length f * 10 ^ PRECISION =
          real (digitsValue f * 10 ^ (PRECISION - length f))"
    unfolding e by simp
  then show ?thesis unfolding t digitsValue_pad by (simp only: floor_of_nat)
next
  case False
  define g where "g = take PRECISION f"
  define h where "h = drop PRECISION f"
  have fgh: "f = g @ h" by (simp add: g_def h_def)
  have lg: "length g = PRECISION" using False by (simp add: g_def)
  have t: "take PRECISION (padEnd PRECISION CHR ''0'' f) = g"
    using False by (simp add: padEnd_def g_def)
  have dh: "list_all isDigit h" using f unfolding h_def list_all_iff by (auto dest: in_set_dropD)
  have hlt: "digitsValue h < 10 ^ length h" using dh by (rule digitsValue_lt)
  have dv: "digitsValue f = digitsValue g * 10 ^ length h + digitsValue h"
    unfolding fgh by (rule digitsValue_append)
  have lf: "length f = PRECISION + length h" using fgh lg by simp
  have canc: "x / (p * q) * p = x / q" if "p \<noteq> 0" for x p q :: real
    using that by simp
  have "real (digitsValue f) / 10 ^ length f * 10 ^ PRECISION =
          real (digitsValue g * 10 ^ length h + digitsValue h) / 10 ^ length h"
    unfolding dv lf power_add by (rule canc) simp
  also have "\<dots> = real (digitsValue g) + real (digitsValue h) / 10 ^ length h"
    by (simp add: add_divide_distrib)
  finally have "real (digitsValue f) / 10 ^ length f * 10 ^ PRECISION =
          real (digitsValue g) + real (digitsValue h) / 10 ^ length h" .
  moreover have "\<lfloor>real (digitsValue g) + real (digitsValue h) / 10 ^ length h\<rfloor> = int (digitsValue g)"
  proof -
    have "0 \<le> real (digitsValue h) / 10 ^ length h" by simp
    moreover have "real (digitsValue h) < 10 ^ length h"
      using hlt of_nat_less_iff [of "digitsValue h" "10 ^ length h", where ?'a = real] by simp
    then have "real (digitsValue h) / 10 ^ length h < 1" by simp
    ultimately show ?thesis by (intro floor_unique) simp_all
  qed
  ultimately show ?thesis unfolding t by simp
qed

lemma scaleScalar_floor:
  assumes "matchesDecimal m"
  shows "scaleScalar m = Inr \<lfloor>decimalValue m * 10 ^ PRECISION\<rfloor>"
proof -
  note p = matchesDecimal_parts [OF assms]
  let ?i = "integerPart m" and ?f = "fractionPart m"
  let ?g = "take PRECISION (padEnd PRECISION CHR ''0'' ?f)"
  have lg: "length ?g = PRECISION" by (simp add: padEnd_def)
  have "int (digitsValue (?i @ ?g)) = int (digitsValue ?i) * 10 ^ PRECISION + int (digitsValue ?g)"
    unfolding digitsValue_append lg by simp
  also have "\<dots> = int (digitsValue ?i) * 10 ^ PRECISION +
      \<lfloor>real (digitsValue ?f) / 10 ^ length ?f * 10 ^ PRECISION\<rfloor>"
    by (simp only: scaled_fraction_floor [OF p(3)])
  also have "\<dots> = \<lfloor>real_of_int (int (digitsValue ?i) * 10 ^ PRECISION) +
      real (digitsValue ?f) / 10 ^ length ?f * 10 ^ PRECISION\<rfloor>"
    by (rule int_add_floor)
  also have "\<dots> = \<lfloor>decimalValue m * 10 ^ PRECISION\<rfloor>"
    by (simp add: decimalValue_def algebra_simps)
  finally show ?thesis by (simp add: scaleScalar_eq [OF assms])
qed

lemma multiply_eq:
  assumes "matchesDecimal m"
  shows "multiply a (Str m) =
           Inr \<lparr>baseValue = bigint_div (baseValue a * \<lfloor>decimalValue m * 10 ^ PRECISION\<rfloor>) scaleFactor,
                decimals = decimals a, symbol = symbol a\<rparr>"
  using assms by (simp add: multiply_def scaleScalar_floor)

lemma divide_eq:
  assumes "matchesDecimal m"
  shows "divide a (Str m) =
           (if \<lfloor>decimalValue m * 10 ^ PRECISION\<rfloor> = 0 then Inl DivisionByZero
            else Inr \<lparr>baseValue = bigint_div (baseValue a * scaleFactor) \<lfloor>decimalValue m * 10 ^ PRECISION\<rfloor>,
                      decimals = decimals a, symbol = symbol a\<rparr>)"
  using assms by (simp add: divide_def scaleScalar_floor)

lemma bigint_div_nonneg: "0 \<le> a \<Longrightarrow> 0 < b \<Longrightarrow> bigint_div a b = a div b"
  by (cases "a = 0") (simp_all add: bigint_div_def)

lemma bigint_div_zero: "bigint_div 0 b = 0"
  by (simp add: bigint_div_def)

lemma scaled_padding_agree:
  assumes "take PRECISION f1 = take PRECISION f2"
  shows "take PRECISION (padEnd PRECISION CHR ''0'' f1) = take PRECISION (padEnd PRECISION CHR ''0'' f2)"
proof -
  have "length (take PRECISION f1) = length (take PRECISION f2)" using assms by simp
  then have "min (length f1) PRECISION = min (length f2) PRECISION" by simp
  then have "PRECISION - length f1 = PRECISION - length f2" by linarith
  then show ?thesis using assms by (simp add: padEnd_def)
qed

section \<open>Scalar multiplication\<close>

lemma take_padEnd: "take n (padEnd n c f) = padEnd n c (take n f)"
  by (simp add: padEnd_def min_def)

lemma multiply_digits:
  assumes "matchesDecimal m"
  shows "multiply a (Str m) =
           Inr \<lparr>baseValue =
                  bigint_div
                    (baseValue a *
                     int (digitsValue
                            (integerPart m @
                             padEnd PRECISION CHR ''0'' (take PRECISION (fractionPart m)))))
                    (10 ^ PRECISION),
                decimals = decimals a, symbol = symbol a\<rparr>"
  using assms
  by (simp add: multiply_def scaleScalar_eq [OF assms] take_padEnd scaleFactor_def)

lemma multiply_agree:
  assumes "matchesDecimal m1" and "matchesDecimal m2"
    and "integerPart m1 = integerPart m2"
    and "take PRECISION (fractionPart m1) = take PRECISION (fractionPart m2)"
  shows "multiply a (Str m1) = multiply a (Str m2)"
  unfolding multiply_digits [OF assms(1)] multiply_digits [OF assms(2)] assms(3) assms(4) ..

lemma multiply_tiny:
  assumes "matchesDecimal m" and p: "0 < decimalValue m"
    and q: "decimalValue m < 1 / 10 ^ PRECISION"
  shows "multiply a (Str m) = Inr \<lparr>baseValue = 0, decimals = decimals a, symbol = symbol a\<rparr>"
proof -
  have a: "0 \<le> decimalValue m * 10 ^ PRECISION" using p by simp
  have b: "decimalValue m * 10 ^ PRECISION < 1"
    using q by (simp add: pos_less_divide_eq)
  have "\<lfloor>decimalValue m * 10 ^ PRECISION\<rfloor> = 0"
    using a b by (intro floor_unique) simp_all
  then show ?thesis
    by (simp add: multiply_eq [OF assms(1)] bigint_div_zero)
qed

lemma scaled_digits_floor:
  assumes "matchesDecimal m"
  shows "int (digitsValue
            (integerPart m @ padEnd PRECISION CHR ''0'' (take PRECISION (fractionPart m)))) =
         \<lfloor>decimalValue m * 10 ^ PRECISION\<rfloor>"
  using scaleScalar_eq [OF assms] scaleScalar_floor [OF assms] by (simp add: take_padEnd)

text \<open>
  Claim C10. For every accepted multiplier \<open>m\<close>, \<open>multiply\<close> succeeds and the base
  value of its result is \<open>baseValue * k / 10^18\<close> (bigint division), where \<open>k\<close> is the
  integer written by the integer part of \<open>m\<close> followed by the first 18 digits of its
  fraction, padded with zeros to 18 places; \<open>k\<close> is the floor of \<open>m * 10^18\<close>, so every
  later digit is discarded. Hence a multiplier with the same integer part and the same
  first 18 fraction digits gives the same result, and a multiplier that denotes a positive
  number below \<open>10^-18\<close> gives an amount with base value 0. (\<open>PRECISION\<close> is 18.)
\<close>

theorem multiply_uses_first_18_fraction_digits:
  assumes "matchesDecimal m"
  shows
   "multiply a (Str m) =
      Inr \<lparr>baseValue =
             bigint_div
               (baseValue a *
                int (digitsValue
                       (integerPart m @
                        padEnd PRECISION CHR ''0'' (take PRECISION (fractionPart m)))))
               (10 ^ PRECISION),
           decimals = decimals a, symbol = symbol a\<rparr> \<and>
    int (digitsValue
           (integerPart m @ padEnd PRECISION CHR ''0'' (take PRECISION (fractionPart m)))) =
      \<lfloor>decimalValue m * 10 ^ PRECISION\<rfloor> \<and>
    (\<forall>m'. matchesDecimal m' \<and> integerPart m' = integerPart m \<and>
          take PRECISION (fractionPart m') = take PRECISION (fractionPart m) \<longrightarrow>
          multiply a (Str m') = multiply a (Str m)) \<and>
    (0 < decimalValue m \<and> decimalValue m < 1 / 10 ^ PRECISION \<longrightarrow>
       multiply a (Str m) =
         Inr \<lparr>baseValue = 0, decimals = decimals a, symbol = symbol a\<rparr>)"
proof (intro conjI allI impI)
  show "multiply a (Str m) =
      Inr \<lparr>baseValue =
             bigint_div
               (baseValue a *
                int (digitsValue
                       (integerPart m @
                        padEnd PRECISION CHR ''0'' (take PRECISION (fractionPart m)))))
               (10 ^ PRECISION),
           decimals = decimals a, symbol = symbol a\<rparr>"
    by (rule multiply_digits [OF assms])
next
  show "int (digitsValue
           (integerPart m @ padEnd PRECISION CHR ''0'' (take PRECISION (fractionPart m)))) =
      \<lfloor>decimalValue m * 10 ^ PRECISION\<rfloor>"
    by (rule scaled_digits_floor [OF assms])
next
  fix m'
  assume "matchesDecimal m' \<and> integerPart m' = integerPart m \<and>
          take PRECISION (fractionPart m') = take PRECISION (fractionPart m)"
  then show "multiply a (Str m') = multiply a (Str m)"
    using multiply_agree [of m' m a] assms by blast
next
  assume "0 < decimalValue m \<and> decimalValue m < 1 / 10 ^ PRECISION"
  then show "multiply a (Str m) =
         Inr \<lparr>baseValue = 0, decimals = decimals a, symbol = symbol a\<rparr>"
    using multiply_tiny [OF assms, of a] by blast
qed

theorem multiply_uses_first_18_fraction_digits_witness:
  "matchesDecimal ''1.5000000000000000009'' \<and>
   matchesDecimal ''1.50000000000000000012'' \<and>
   integerPart ''1.50000000000000000012'' = integerPart ''1.5000000000000000009'' \<and>
   take PRECISION (fractionPart ''1.50000000000000000012'') =
     take PRECISION (fractionPart ''1.5000000000000000009'') \<and>
   multiply \<lparr>baseValue = 2000000000000000000, decimals = 18, symbol = None\<rparr>
            (Str ''1.5000000000000000009'') =
     Inr \<lparr>baseValue = 3000000000000000000, decimals = 18, symbol = None\<rparr> \<and>
   multiply \<lparr>baseValue = 2000000000000000000, decimals = 18, symbol = None\<rparr>
            (Str ''1.50000000000000000012'') =
     Inr \<lparr>baseValue = 3000000000000000000, decimals = 18, symbol = None\<rparr> \<and>
   matchesDecimal ''0.0000000000000000005'' \<and>
   0 < decimalValue ''0.0000000000000000005'' \<and>
   decimalValue ''0.0000000000000000005'' < 1 / 10 ^ PRECISION \<and>
   multiply \<lparr>baseValue = 2000000000000000000, decimals = 18, symbol = None\<rparr>
            (Str ''0.0000000000000000005'') =
     Inr \<lparr>baseValue = 0, decimals = 18, symbol = None\<rparr>"
proof -
  let ?a = "\<lparr>baseValue = 2000000000000000000, decimals = 18, symbol = None\<rparr>"
  have m1: "matchesDecimal ''1.5000000000000000009''" by (simp add: eval_str)
  have m2: "matchesDecimal ''1.50000000000000000012''" by (simp add: eval_str)
  have i1: "integerPart ''1.5000000000000000009'' = ''1''" by (simp add: integerPart_def)
  have i2: "integerPart ''1.50000000000000000012'' = ''1''" by (simp add: integerPart_def)
  have f1: "fractionPart ''1.5000000000000000009'' = ''5000000000000000009''"
    by (simp add: fractionPart_def)
  have f2: "fractionPart ''1.50000000000000000012'' = ''50000000000000000012''"
    by (simp add: fractionPart_def)
  have t1: "take PRECISION ''5000000000000000009'' = ''500000000000000000''"
    by (simp add: PRECISION_def)
  have t2: "take PRECISION ''50000000000000000012'' = ''500000000000000000''"
    by (simp add: PRECISION_def)
  have ip: "integerPart ''1.50000000000000000012'' = integerPart ''1.5000000000000000009''"
    unfolding i1 i2 by (rule refl)
  have fp: "take PRECISION (fractionPart ''1.50000000000000000012'') =
            take PRECISION (fractionPart ''1.5000000000000000009'')"
    unfolding f1 f2 t1 t2 by (rule refl)
  have k: "int (digitsValue (''1'' @ padEnd PRECISION CHR ''0'' ''500000000000000000'')) =
             1500000000000000000"
    by (simp add: padEnd_def PRECISION_def digitsValue_def digitValue_def)
  note inst = multiply_uses_first_18_fraction_digits [OF m1, of ?a]
  have "multiply ?a (Str ''1.5000000000000000009'') =
      Inr \<lparr>baseValue =
             bigint_div
               (baseValue ?a *
                int (digitsValue
                       (integerPart ''1.5000000000000000009'' @
                        padEnd PRECISION CHR ''0''
                          (take PRECISION (fractionPart ''1.5000000000000000009'')))))
               (10 ^ PRECISION),
           decimals = decimals ?a, symbol = symbol ?a\<rparr>"
    using inst by (rule conjunct1)
  then have r1: "multiply ?a (Str ''1.5000000000000000009'') =
      Inr \<lparr>baseValue = 3000000000000000000, decimals = 18, symbol = None\<rparr>"
    unfolding i1 f1 t1 k by (simp add: bigint_div_def PRECISION_def)
  have "multiply ?a (Str ''1.50000000000000000012'') = multiply ?a (Str ''1.5000000000000000009'')"
    using inst m2 ip fp by blast
  then have r2: "multiply ?a (Str ''1.50000000000000000012'') =
      Inr \<lparr>baseValue = 3000000000000000000, decimals = 18, symbol = None\<rparr>"
    using r1 by simp
  have m3: "matchesDecimal ''0.0000000000000000005''" by (simp add: eval_str)
  have v0: "decimalValue ''0.0000000000000000005'' = 5 / 10 ^ 19"
    by (simp add: decimalValue_def fractionPart_def integerPart_def digitsValue_def digitValue_def)
  have v1: "0 < decimalValue ''0.0000000000000000005''"
    unfolding v0 by (simp add: field_simps)
  have v2: "decimalValue ''0.0000000000000000005'' < 1 / 10 ^ PRECISION"
    unfolding v0 PRECISION_def by (simp add: field_simps)
  have "multiply ?a (Str ''0.0000000000000000005'') =
      Inr \<lparr>baseValue = 0, decimals = decimals ?a, symbol = symbol ?a\<rparr>"
    using multiply_uses_first_18_fraction_digits [OF m3, of ?a] v1 v2 by blast
  then have r3: "multiply ?a (Str ''0.0000000000000000005'') =
      Inr \<lparr>baseValue = 0, decimals = 18, symbol = None\<rparr>" by simp
  show ?thesis by (intro conjI) (fact m1 m2 ip fp r1 r2 m3 v1 v2 r3)+
qed

section \<open>Comparisons and subtraction\<close>

lemma isCompatible_iff:
  "isCompatible a b \<longleftrightarrow>
     decimals a = decimals b \<and> (symbol a = None \<or> symbol b = None \<or> symbol a = symbol b)"
  by (auto simp: isCompatible_def)

lemma isCompatible_sym: "isCompatible a b = isCompatible b a"
  by (auto simp: isCompatible_iff)

lemma assertCompatible_iff: "assertCompatible a b = Inr () \<longleftrightarrow> isCompatible a b"
  by (auto simp: assertCompatible_def isCompatible_def split: option.splits)

text \<open>
  Claim C5. When two amounts are incompatible (their decimals differ, or both carry a
  symbol and the symbols differ), each of \<open>eq\<close>, \<open>gt\<close>, \<open>gte\<close>, \<open>lt\<close>, \<open>lte\<close>
  returns false; and \<open>a.eq(b) = b.eq(a)\<close> for every pair of amounts. The five methods
  contain no \<open>throw\<close> and call only \<open>isCompatible\<close>, which has none either, so
  they are total functions into the booleans.
\<close>

theorem comparisons_of_incompatible_amounts:
  "(decimals a \<noteq> decimals b \<or>
      (\<exists>x y. symbol a = Some x \<and> symbol b = Some y \<and> x \<noteq> y) \<longrightarrow>
        \<not> isCompatible a b \<and>
        eq a b = False \<and> gt a b = False \<and> gte a b = False \<and>
        lt a b = False \<and> lte a b = False) \<and>
   eq a b = eq b a"
proof
  show "decimals a \<noteq> decimals b \<or>
      (\<exists>x y. symbol a = Some x \<and> symbol b = Some y \<and> x \<noteq> y) \<longrightarrow>
        \<not> isCompatible a b \<and>
        eq a b = False \<and> gt a b = False \<and> gte a b = False \<and>
        lt a b = False \<and> lte a b = False"
  proof
    assume "decimals a \<noteq> decimals b \<or>
      (\<exists>x y. symbol a = Some x \<and> symbol b = Some y \<and> x \<noteq> y)"
    then have "\<not> isCompatible a b" by (auto simp: isCompatible_iff)
    then show "\<not> isCompatible a b \<and>
        eq a b = False \<and> gt a b = False \<and> gte a b = False \<and>
        lt a b = False \<and> lte a b = False"
      by (simp add: eq_def gt_def gte_def lt_def lte_def)
  qed
next
  show "eq a b = eq b a"
    using isCompatible_sym [of a b] by (auto simp: eq_def)
qed

theorem comparisons_of_incompatible_amounts_witness:
  "decimals \<lparr>baseValue = 15, decimals = 18, symbol = Some ''ETH''\<rparr> \<noteq>
     decimals \<lparr>baseValue = 15, decimals = 6, symbol = Some ''USDC''\<rparr> \<and>
   eq \<lparr>baseValue = 15, decimals = 18, symbol = Some ''ETH''\<rparr>
      \<lparr>baseValue = 15, decimals = 6, symbol = Some ''USDC''\<rparr> = False \<and>
   eq \<lparr>baseValue = 15, decimals = 6, symbol = Some ''USDC''\<rparr>
      \<lparr>baseValue = 15, decimals = 18, symbol = Some ''ETH''\<rparr> = False \<and>
   lte \<lparr>baseValue = 15, decimals = 18, symbol = Some ''ETH''\<rparr>
      \<lparr>baseValue = 15, decimals = 6, symbol = Some ''USDC''\<rparr> = False \<and>
   gte \<lparr>baseValue = 15, decimals = 18, symbol = Some ''ETH''\<rparr>
      \<lparr>baseValue = 15, decimals = 6, symbol = Some ''USDC''\<rparr> = False"
  using comparisons_of_incompatible_amounts
     [of "\<lparr>baseValue = 15, decimals = 18, symbol = Some ''ETH''\<rparr>"
         "\<lparr>baseValue = 15, decimals = 6, symbol = Some ''USDC''\<rparr>"]
  by auto

lemma fromUnit_nonneg: "fromUnit x d sy = Inr c \<Longrightarrow> 0 \<le> baseValue c"
  by (auto simp: fromUnit_eq Let_def split: if_splits)

text \<open>
  Claim C9. For compatible amounts \<open>a\<close> and \<open>b\<close>, \<open>a.subtract(b)\<close> returns an amount
  whose base value is exactly \<open>a.toBase() - b.toBase()\<close>, negative when \<open>b\<close> exceeds
  \<open>a\<close>. \<open>fromUnit\<close> never produces a negative base value and rejects a numeral with
  a minus sign, yet subtracting \<open>fromUnit("2", 0)\<close> from \<open>fromUnit("1", 0)\<close> gives an
  amount with a negative base value.
\<close>

theorem subtract_base_value:
  assumes "isCompatible a b"
  shows "subtract a b =
           Inr \<lparr>baseValue = toBase a - toBase b, decimals = decimals a,
                symbol = coalesce (symbol a) (symbol b)\<rparr> \<and>
         (toBase a < toBase b \<longrightarrow> (\<exists>c. subtract a b = Inr c \<and> toBase c < 0)) \<and>
         (\<forall>x d sy c. fromUnit x d sy = Inr c \<longrightarrow> 0 \<le> toBase c) \<and>
         (\<forall>s d sy. fromUnit (Str (CHR ''-'' # s)) d sy = Inl (InvalidUnitAmount (CHR ''-'' # s))) \<and>
         (\<exists>p q c. fromUnit (Str ''1'') 0 None = Inr p \<and> fromUnit (Str ''2'') 0 None = Inr q \<and>
                  subtract p q = Inr c \<and> toBase c < 0)"
proof -
  have ok: "assertCompatible a b = Inr ()" using assms by (simp add: assertCompatible_iff)
  have s: "subtract a b =
           Inr \<lparr>baseValue = toBase a - toBase b, decimals = decimals a,
                symbol = coalesce (symbol a) (symbol b)\<rparr>"
    by (simp add: subtract_def ok toBase_def)
  have n: "toBase a < toBase b \<longrightarrow> (\<exists>c. subtract a b = Inr c \<and> toBase c < 0)"
    unfolding s by (simp add: toBase_def)
  have f: "\<forall>x d sy c. fromUnit x d sy = Inr c \<longrightarrow> 0 \<le> toBase c"
    using fromUnit_nonneg by (simp add: toBase_def)
  have "\<not> matchesDecimal (CHR ''-'' # s)" for s
    by (simp add: matchesDecimal_def isDigit_def)
  then have m: "\<forall>s d sy. fromUnit (Str (CHR ''-'' # s)) d sy = Inl (InvalidUnitAmount (CHR ''-'' # s))"
    by (simp add: fromUnit_def)
  have p: "fromUnit (Str ''1'') 0 None = Inr \<lparr>baseValue = 1, decimals = 0, symbol = None\<rparr>"
    by code_simp
  have q: "fromUnit (Str ''2'') 0 None = Inr \<lparr>baseValue = 2, decimals = 0, symbol = None\<rparr>"
    by code_simp
  have c: "subtract \<lparr>baseValue = 1, decimals = 0, symbol = None\<rparr>
                    \<lparr>baseValue = 2, decimals = 0, symbol = None\<rparr> =
             Inr \<lparr>baseValue = - 1, decimals = 0, symbol = None\<rparr>"
    by (simp add: subtract_def assertCompatible_def coalesce_def)
  have r: "\<exists>p q c. fromUnit (Str ''1'') 0 None = Inr p \<and> fromUnit (Str ''2'') 0 None = Inr q \<and>
                  subtract p q = Inr c \<and> toBase c < 0"
    unfolding p q by (simp add: c toBase_def)
  from s n f m r show ?thesis by blast
qed

theorem subtract_base_value_witness:
  "isCompatible \<lparr>baseValue = 1000000000000000000, decimals = 18, symbol = Some ''ETH''\<rparr>
                \<lparr>baseValue = 2000000000000000000, decimals = 18, symbol = None\<rparr> \<and>
   toBase \<lparr>baseValue = 1000000000000000000, decimals = 18, symbol = Some ''ETH''\<rparr> <
     toBase \<lparr>baseValue = 2000000000000000000, decimals = 18, symbol = None\<rparr> \<and>
   subtract \<lparr>baseValue = 1000000000000000000, decimals = 18, symbol = Some ''ETH''\<rparr>
            \<lparr>baseValue = 2000000000000000000, decimals = 18, symbol = None\<rparr> =
     Inr \<lparr>baseValue = - 1000000000000000000, decimals = 18, symbol = Some ''ETH''\<rparr>"
proof -
  let ?a = "\<lparr>baseValue = 1000000000000000000, decimals = 18, symbol = Some ''ETH''\<rparr>"
  let ?b = "\<lparr>baseValue = 2000000000000000000, decimals = 18, symbol = None\<rparr>"
  have c: "isCompatible ?a ?b" by (simp add: isCompatible_def)
  have l: "toBase ?a < toBase ?b" by (simp add: toBase_def)
  have "subtract ?a ?b = Inr \<lparr>baseValue = toBase ?a - toBase ?b, decimals = decimals ?a,
                symbol = coalesce (symbol ?a) (symbol ?b)\<rparr>"
    using subtract_base_value [OF c] by blast
  then have "subtract ?a ?b =
     Inr \<lparr>baseValue = - 1000000000000000000, decimals = 18, symbol = Some ''ETH''\<rparr>"
    by (simp add: toBase_def coalesce_def)
  with c l show ?thesis by blast
qed

section \<open>Scalar division\<close>

lemma replicate_numeral: "replicate (numeral k) x = x # replicate (pred_numeral k) x"
  by (simp add: numeral_eq_Suc)

lemmas eval_num = replicate_numeral padEnd_def padStart_def slice_to_neg_def slice_from_neg_def
  BigInt_of_string_def digitsValue_def digitValue_def digitChar_def bigintToString_def
  natToString.simps PRECISION_def scaleFactor_def bigint_div_def

lemma scaleScalar_nonneg: "scaleScalar m = Inr k \<Longrightarrow> 0 \<le> k"
  by (auto simp: scaleScalar_def Let_def BigInt_of_string_def split: if_splits)

lemma divide_fails_iff:
  assumes "matchesDecimal m"
  shows "isl (divide a (Str m)) \<longleftrightarrow> scaleScalar m = Inr 0"
    and "isl (divide a (Str m)) \<longleftrightarrow> divide a (Str m) = Inl DivisionByZero"
  using assms scaleScalar_eq [OF assms] by (auto simp: divide_def Let_def)

lemma divide_nonneg_floor:
  assumes "matchesDecimal m" and "0 \<le> baseValue a" and "scaleScalar m = Inr k" and "k \<noteq> 0"
  shows "divide a (Str m) =
           Inr \<lparr>baseValue = \<lfloor>real_of_int (baseValue a * 10 ^ 18) / real_of_int k\<rfloor>,
                decimals = decimals a, symbol = symbol a\<rparr>"
proof -
  have k: "0 < k" using scaleScalar_nonneg [OF assms(3)] assms(4) by simp
  have sb: "0 \<le> baseValue a * scaleFactor" using assms(2) by (simp add: scaleFactor_def)
  have "bigint_div (baseValue a * scaleFactor) k = (baseValue a * scaleFactor) div k"
    using sb k by (rule bigint_div_nonneg)
  also have "\<dots> = \<lfloor>real_of_int (baseValue a * scaleFactor) / real_of_int k\<rfloor>"
    by (rule floor_divide_of_int_eq [symmetric])
  finally have "bigint_div (baseValue a * scaleFactor) k =
      \<lfloor>real_of_int (baseValue a * 10 ^ 18) / real_of_int k\<rfloor>"
    by (simp only: scaleFactor_def PRECISION_def)
  then show ?thesis using assms(1,3,4) by (simp add: divide_def Let_def)
qed

lemma scale_two: "scaleScalar ''2'' = Inr 2000000000000000000"
  by (simp add: scaleScalar_def integerPart_def fractionPart_def eval_num isDigit_def)

lemma scale_four: "scaleScalar ''4'' = Inr 4000000000000000000"
  by (simp add: scaleScalar_def integerPart_def fractionPart_def eval_num isDigit_def)

lemma ten_units: "fromUnit (Str ''10'') 18 None =
    Inr \<lparr>baseValue = 10000000000000000000, decimals = 18, symbol = None\<rparr>"
  by (simp add: fromUnit_def eval_str eval_num)

lemma ten_times_two: "multiply \<lparr>baseValue = 10000000000000000000, decimals = 18, symbol = None\<rparr> (Str ''2'') =
    Inr \<lparr>baseValue = 20000000000000000000, decimals = 18, symbol = None\<rparr>"
  by (simp add: multiply_def scale_two matchesDecimal_def isDigit_def scaleFactor_def PRECISION_def bigint_div_def)

lemma twenty_by_two: "divide \<lparr>baseValue = 20000000000000000000, decimals = 18, symbol = None\<rparr> (Str ''2'') =
    Inr \<lparr>baseValue = 10000000000000000000, decimals = 18, symbol = None\<rparr>"
  by (simp add: divide_def scale_two matchesDecimal_def isDigit_def scaleFactor_def PRECISION_def bigint_div_def)

lemma ten_by_four: "divide \<lparr>baseValue = 10000000000000000000, decimals = 18, symbol = None\<rparr> (Str ''4'') =
    Inr \<lparr>baseValue = 2500000000000000000, decimals = 18, symbol = None\<rparr>"
  by (simp add: divide_def scale_four matchesDecimal_def isDigit_def scaleFactor_def PRECISION_def bigint_div_def)

lemma toUnit_ten: "toUnit \<lparr>baseValue = 10000000000000000000, decimals = 18, symbol = None\<rparr> = ''10''"
  by (simp add: toUnit_def eval_num stripTrailingZeros_def)

lemma toUnit_two_and_half: "toUnit \<lparr>baseValue = 2500000000000000000, decimals = 18, symbol = None\<rparr> = ''2.5''"
  by (simp add: toUnit_def eval_num stripTrailingZeros_def)

text \<open>
  Claim C4. \<open>divide\<close> fails exactly when the scaled divisor is zero
  (\<open>divide_fails_iff\<close>), and for a non-negative base value the quotient is the floor of
  \<open>base * 10^18 / scaledDivisor\<close> (\<open>divide_nonneg_floor\<close>). For a negative base
  value, which \<open>subtract\<close> produces, the bigint division rounds toward zero instead:
  \<open>fromUnit("1", 0).subtract(fromUnit("2", 0)).divide("2")\<close> has base value 0, while
  the floor of \<open>-10^18 / (2 * 10^18)\<close> is \<open>-1\<close>. The two examples of the claim hold
  (\<open>ten_units\<close>, \<open>ten_times_two\<close>, \<open>twenty_by_two\<close>, \<open>ten_by_four\<close>, \<open>toUnit_ten\<close>,
  \<open>toUnit_two_and_half\<close>); the number \<open>4\<close> of \<open>divide(4)\<close> enters as its string \<open>"4"\<close>.
\<close>

theorem divide_negative_base_rounds_toward_zero:
  "subtract \<lparr>baseValue = 1, decimals = 0, symbol = None\<rparr>
            \<lparr>baseValue = 2, decimals = 0, symbol = None\<rparr> =
     Inr \<lparr>baseValue = - 1, decimals = 0, symbol = None\<rparr> \<and>
   scaleScalar ''2'' = Inr 2000000000000000000 \<and>
   divide \<lparr>baseValue = - 1, decimals = 0, symbol = None\<rparr> (Str ''2'') =
     Inr \<lparr>baseValue = 0, decimals = 0, symbol = None\<rparr> \<and>
   \<lfloor>real_of_int (- 1 * 10 ^ 18) / real_of_int 2000000000000000000\<rfloor> = - 1"
proof -
  have s: "subtract \<lparr>baseValue = 1, decimals = 0, symbol = None\<rparr>
            \<lparr>baseValue = 2, decimals = 0, symbol = None\<rparr> =
     Inr \<lparr>baseValue = - 1, decimals = 0, symbol = None\<rparr>"
    by (simp add: subtract_def assertCompatible_def coalesce_def)
  have d: "divide \<lparr>baseValue = - 1, decimals = 0, symbol = None\<rparr> (Str ''2'') =
     Inr \<lparr>baseValue = 0, decimals = 0, symbol = None\<rparr>"
    by (simp add: divide_def scale_two matchesDecimal_def isDigit_def scaleFactor_def PRECISION_def bigint_div_def)
  have "\<lfloor>real_of_int (- 1 * 10 ^ 18) / real_of_int 2000000000000000000\<rfloor> =
          (- 1 * 10 ^ 18) div 2000000000000000000"
    by (rule floor_divide_of_int_eq)
  also have "\<dots> = - 1" by simp
  finally have f: "\<lfloor>real_of_int (- 1 * 10 ^ 18) / real_of_int 2000000000000000000\<rfloor> = - 1" .
  from s scale_two d f show ?thesis by blast
qed

section \<open>Runs of the wallet methods\<close>

lemma andThen_Inl: "andThen (Inl e, t) f = (Inl e, t)"
  by (simp add: andThen_def)

lemma andThen_Inr: "andThen (Inr x, t) f = (fst (f x), t @ snd (f x))"
  by (simp add: andThen_def split: prod.splits)

lemma tryCatch_Inl: "tryCatch (Inl e, t) h = (fst (h e), t @ snd (h e))"
  by (simp add: tryCatch_def split: prod.splits)

lemma tryCatch_Inr: "tryCatch (Inr x, t) h = (Inr x, t)"
  by (simp add: tryCatch_def)

lemmas run_simps = andThen_Inl andThen_Inr tryCatch_Inl tryCatch_Inr
  return_def throw_def call_def

lemma isDeployed_eq:
  "isDeployed w world =
     (Inr (case getClassHashAt world (address w) of Inl e \<Rightarrow> False | Inr v \<Rightarrow> truthy v),
      [ClassHashQueried (address w)])"
  by (cases "getClassHashAt world (address w)") (simp_all add: isDeployed_def run_simps)

text \<open>
  Claim C8. \<open>isDeployed\<close> never throws: it makes one class-hash query for the wallet's
  address and returns true exactly when the query answers with a truthy class hash; it
  returns false when the query answers with no class hash (or an empty one) and when the
  query fails with any thrown value. Both versions of the class in the repository have
  the same \<open>isDeployed\<close>.
\<close>

theorem isDeployed_never_throws:
  "isDeployed w world =
     (Inr (case getClassHashAt world (address w) of
             Inl e \<Rightarrow> False
           | Inr None \<Rightarrow> False
           | Inr (Some h) \<Rightarrow> h \<noteq> []),
      [ClassHashQueried (address w)])"
  unfolding isDeployed_eq by (simp add: truthy_def split: sum.splits option.splits)

theorem isDeployed_never_throws_witness:
  "fst (isDeployed testWallet undeployedWorld) = Inr False \<and>
   fst (isDeployed testWallet
          (undeployedWorld\<lparr>getClassHashAt := (\<lambda>_. Inl (JsError ''timeout''))\<rparr>)) = Inr False \<and>
   fst (isDeployed testWallet
          (undeployedWorld\<lparr>getClassHashAt := (\<lambda>_. Inr (Some ''0x5''))\<rparr>)) = Inr True \<and>
   fst (isDeployed testWallet
          (undeployedWorld\<lparr>getClassHashAt := (\<lambda>_. Inr (Some []))\<rparr>)) = Inr False"
  using isDeployed_never_throws [of testWallet undeployedWorld]
    isDeployed_never_throws [of testWallet
       "undeployedWorld\<lparr>getClassHashAt := (\<lambda>_. Inl (JsError ''timeout''))\<rparr>"]
    isDeployed_never_throws [of testWallet
       "undeployedWorld\<lparr>getClassHashAt := (\<lambda>_. Inr (Some ''0x5''))\<rparr>"]
    isDeployed_never_throws [of testWallet
       "undeployedWorld\<lparr>getClassHashAt := (\<lambda>_. Inr (Some []))\<rparr>"]
  by (simp add: undeployedWorld_def)

lemma preflight_returns: "\<exists>r. fst (preflight w world opts) = Inr r"
  unfolding preflight_def
  by (cases "preflightChecks w world opts"; cases "fst (preflightChecks w world opts)")
     (simp_all add: run_simps)

lemma preflight_reports:
  "fst (preflightChecks w world opts) = Inl e \<Longrightarrow>
     fst (preflight w world opts) = Inr (NotOk (errorMessage e))"
  unfolding preflight_def
  by (cases "preflightChecks w world opts") (simp add: run_simps)

lemma preflight_simulation_throws:
  assumes "fst (isDeployed w world) = Inr True \<or> kind opts = ''execute''"
    and "\<not> ((case preflight_feeMode opts of None \<Rightarrow> defaultFeeMode w | Some m \<Rightarrow> m) = sponsored
            \<and> sponsor w = None)"
    and "preflight_calls opts = Some cs" and "cs \<noteq> []"
    and "simulateTransaction world cs = Inl e"
  shows "fst (preflightChecks w world opts) = Inl e"
  using assms
  by (auto simp: preflightChecks_def isDeployed_eq run_simps Let_def)

text \<open>
  Claim C7. For every wallet, every behaviour of the network and every options object,
  \<open>preflight\<close> returns a result and never throws; a value thrown by one of its checks is
  reported as \<open>{ok: false, reason}\<close> with the message of the error (\<open>"Unknown error"\<close>
  when the thrown value is not an \<open>Error\<close>); in particular a simulation call of the
  network client that throws an error with message \<open>m\<close> gives \<open>{ok: false, reason: m}\<close>.
\<close>

theorem preflight_never_throws:
  "(\<exists>r. fst (preflight w world opts) = Inr r) \<and>
   (\<forall>e. fst (preflightChecks w world opts) = Inl e \<longrightarrow>
        fst (preflight w world opts) = Inr (NotOk (errorMessage e))) \<and>
   (\<forall>cs m. (fst (isDeployed w world) = Inr True \<or> kind opts = ''execute'') \<and>
           \<not> ((case preflight_feeMode opts of None \<Rightarrow> defaultFeeMode w | Some m \<Rightarrow> m) = sponsored
               \<and> sponsor w = None) \<and>
           preflight_calls opts = Some cs \<and> cs \<noteq> [] \<and>
           simulateTransaction world cs = Inl (JsError m) \<longrightarrow>
        fst (preflight w world opts) = Inr (NotOk m))"
proof (intro conjI allI impI)
  show "\<exists>r. fst (preflight w world opts) = Inr r" by (rule preflight_returns)
next
  fix e assume "fst (preflightChecks w world opts) = Inl e"
  then show "fst (preflight w world opts) = Inr (NotOk (errorMessage e))"
    by (rule preflight_reports)
next
  fix cs m
  assume a: "(fst (isDeployed w world) = Inr True \<or> kind opts = ''execute'') \<and>
           \<not> ((case preflight_feeMode opts of None \<Rightarrow> defaultFeeMode w | Some m \<Rightarrow> m) = sponsored
               \<and> sponsor w = None) \<and>
           preflight_calls opts = Some cs \<and> cs \<noteq> [] \<and>
           simulateTransaction world cs = Inl (JsError m)"
  then have "fst (preflightChecks w world opts) = Inl (JsError m)"
    by (intro preflight_simulation_throws) blast+
  then show "fst (preflight w world opts) = Inr (NotOk m)"
    using preflight_reports [of w world opts "JsError m"] by (simp add: errorMessage_def)
qed

lemma preflight_table:
  "fst (preflight w world opts) =
     Inr (let cs = (case preflight_calls opts of None \<Rightarrow> [] | Some c \<Rightarrow> c) in
          if fst (isDeployed w world) = Inr False \<and> kind opts \<noteq> ''execute''
            then NotOk ''Account not deployed''
          else if (case preflight_feeMode opts of None \<Rightarrow> defaultFeeMode w | Some m \<Rightarrow> m) = sponsored
                  \<and> sponsor w = None
            then NotOk ''Sponsor not configured''
          else if cs = [] then Ok
          else case simulateTransaction world cs of
                 Inl e \<Rightarrow> NotOk (errorMessage e)
               | Inr simulation \<Rightarrow>
                   (case revertReason simulation of Some reason \<Rightarrow> NotOk reason | None \<Rightarrow> Ok))"
  by (simp add: preflight_def preflightChecks_def Let_def isDeployed_eq run_simps
      tryCatch_def andThen_def split: sum.splits option.splits)

theorem preflight_never_throws_witness:
  "(fst (isDeployed testWallet undeployedWorld) = Inr True \<or> kind executePreflight = ''execute'') \<and>
   preflight_calls executePreflight = Some [transferCall] \<and>
   simulateTransaction undeployedWorld [transferCall] = Inl (JsError ''network down'') \<and>
   fst (preflightChecks testWallet undeployedWorld executePreflight) = Inl (JsError ''network down'') \<and>
   fst (preflight testWallet undeployedWorld executePreflight) = Inr (NotOk ''network down'')"
proof -
  have k: "fst (isDeployed testWallet undeployedWorld) = Inr True \<or> kind executePreflight = ''execute''"
    by (simp add: executePreflight_def)
  have s: "\<not> ((case preflight_feeMode executePreflight of None \<Rightarrow> defaultFeeMode testWallet
                | Some m \<Rightarrow> m) = sponsored \<and> sponsor testWallet = None)"
    by (simp add: testWallet_def)
  have c: "preflight_calls executePreflight = Some [transferCall]"
    by (simp add: executePreflight_def)
  have t: "simulateTransaction undeployedWorld [transferCall] = Inl (JsError ''network down'')"
    by (simp add: undeployedWorld_def)
  have ch: "fst (preflightChecks testWallet undeployedWorld executePreflight) =
              Inl (JsError ''network down'')"
    using k s c t by (intro preflight_simulation_throws) simp_all
  note inst = preflight_never_throws [of testWallet undeployedWorld executePreflight]
  from inst ch have "fst (preflight testWallet undeployedWorld executePreflight) =
      Inr (NotOk (errorMessage (JsError ''network down'')))" by blast
  then have "fst (preflight testWallet undeployedWorld executePreflight) =
      Inr (NotOk ''network down'')" by (simp add: errorMessage_def)
  with k c t ch show ?thesis by blast
qed

lemma snd_andThen:
  "snd (andThen m f) = snd m @ (case fst m of Inl e \<Rightarrow> [] | Inr x \<Rightarrow> snd (f x))"
  by (cases m; cases "fst m") (simp_all add: andThen_def split: prod.splits)

lemma fst_andThen:
  "fst (andThen m f) = (case fst m of Inl e \<Rightarrow> Inl e | Inr x \<Rightarrow> fst (f x))"
  by (cases m; cases "fst m") (simp_all add: andThen_def split: prod.splits)

lemma progressSteps_append: "progressSteps (s @ t) = progressSteps s @ progressSteps t"
  by (simp add: progressSteps_def)

lemma deployInvocations_append:
  "deployInvocations (s @ t) = deployInvocations s + deployInvocations t"
  by (simp add: deployInvocations_def)

lemma progressSteps_simps:
  "progressSteps [] = []"
  "progressSteps (e # t) = (case e of Progress s \<Rightarrow> [s] | _ \<Rightarrow> []) @ progressSteps t"
  by (simp_all add: progressSteps_def)

lemma deployInvocations_simps:
  "deployInvocations [] = 0"
  "deployInvocations (e # t) = (if e = DeployInvoked then 1 else 0) + deployInvocations t"
  by (simp_all add: deployInvocations_def)

lemmas trace_simps = progressSteps_simps deployInvocations_simps
  progressSteps_append deployInvocations_append

lemma requestSponsorship_eq:
  assumes "sponsor w = Some g"
  shows "requestSponsorship w cs hint =
     (case g \<lparr>calls = cs, callerAddress = address w,
               chainId = config_chainId w, policyHint = hint\<rparr> of
        Inl e \<Rightarrow> Inl (JsError (''Sponsorship rejected: '' @ errorMessage e))
      | Inr r \<Rightarrow> Inr r,
      [SponsorAsked \<lparr>calls = cs, callerAddress = address w,
                     chainId = config_chainId w, policyHint = hint\<rparr>])"
  using assms
  by (simp add: requestSponsorship_def Let_def run_simps split: sum.splits)

lemma requestSponsorship_trace:
  "deployInvocations (snd (requestSponsorship w cs hint)) = 0 \<and>
   progressSteps (snd (requestSponsorship w cs hint)) = []"
proof (cases "sponsor w")
  case None
  then show ?thesis
    by (simp add: requestSponsorship_def run_simps trace_simps)
next
  case (Some g)
  show ?thesis unfolding requestSponsorship_eq [OF Some]
    by (simp add: trace_simps)
qed

lemma deploy_trace:
  "deployInvocations (snd (deploy w world opts)) = 1 \<and>
   progressSteps (snd (deploy w world opts)) = []"
  using requestSponsorship_trace [of w "[]"]
  by (simp add: deploy_def Let_def snd_andThen fst_andThen call_def return_def trace_simps
      split: sum.splits)

lemma progress_observed:
  "onProgress opts = Some ob \<Longrightarrow> \<forall>s. ob s = Inr () \<Longrightarrow>
     progress opts step = (Inr (), [Progress step])"
  by (simp add: progress_def call_def)

lemma ensureReady_callback_throws:
  assumes "onProgress opts = Some ob" and "ob CONNECTED = Inl e"
  shows "ensureReady w world opts = (Inl e, [Progress CONNECTED])"
  using assms by (simp add: ensureReady_def Let_def progress_def call_def andThen_def)

lemma isDeployed_trace:
  "snd (isDeployed w world) = [ClassHashQueried (address w)]"
  by (simp add: isDeployed_eq)

lemma ensureReady_undeployed_if_needed:
  assumes ob: "onProgress opts = Some ob" and ok: "\<forall>s. ob s = Inr ()"
    and nd: "fst (isDeployed w world) = Inr False"
    and md: "deployMode opts = None \<or> deployMode opts = Some if_needed"
  shows "deployInvocations (snd (ensureReady w world opts)) = 1"
    and "fst (deploy w world opts) = Inl e \<Longrightarrow>
           fst (ensureReady w world opts) = Inl e \<and>
           progressSteps (snd (ensureReady w world opts)) = [CONNECTED, CHECK_DEPLOYED, DEPLOYING]"
    and "fst (deploy w world opts) = Inr tx \<Longrightarrow> tx_wait world tx = Inl e \<Longrightarrow>
           fst (ensureReady w world opts) = Inl e \<and>
           progressSteps (snd (ensureReady w world opts)) = [CONNECTED, CHECK_DEPLOYED, DEPLOYING]"
    and "fst (deploy w world opts) = Inr tx \<Longrightarrow> tx_wait world tx = Inr u \<Longrightarrow>
           fst (ensureReady w world opts) = Inr () \<and>
           progressSteps (snd (ensureReady w world opts)) =
             [CONNECTED, CHECK_DEPLOYED, DEPLOYING, READY]"
proof -
  have m: "(case deployMode opts of None \<Rightarrow> if_needed | Some m \<Rightarrow> m) = if_needed"
    using md by auto
  note dt = deploy_trace [of w world opts]
  note unf = ensureReady_def Let_def m progress_observed [OF ob ok] snd_andThen fst_andThen
    nd isDeployed_trace call_def return_def trace_simps
  show "deployInvocations (snd (ensureReady w world opts)) = 1"
    using dt by (simp add: unf split: sum.splits)
  show "fst (deploy w world opts) = Inl e \<Longrightarrow>
           fst (ensureReady w world opts) = Inl e \<and>
           progressSteps (snd (ensureReady w world opts)) = [CONNECTED, CHECK_DEPLOYED, DEPLOYING]"
    using dt by (simp add: unf)
  show "fst (deploy w world opts) = Inr tx \<Longrightarrow> tx_wait world tx = Inl e \<Longrightarrow>
           fst (ensureReady w world opts) = Inl e \<and>
           progressSteps (snd (ensureReady w world opts)) = [CONNECTED, CHECK_DEPLOYED, DEPLOYING]"
    using dt by (simp add: unf)
  show "fst (deploy w world opts) = Inr tx \<Longrightarrow> tx_wait world tx = Inr u \<Longrightarrow>
           fst (ensureReady w world opts) = Inr () \<and>
           progressSteps (snd (ensureReady w world opts)) =
             [CONNECTED, CHECK_DEPLOYED, DEPLOYING, READY]"
    using dt by (simp add: unf)
qed



section \<open>The readiness state machine\<close>


lemmas world_defs = testWallet_def undeployedWorld_def failingDeployWorld_def observed_def


lemma deploy_in_failingDeployWorld:
  "fst (deploy testWallet failingDeployWorld observed) = Inl (JsError ''insufficient balance'')"
  by (simp add: deploy_def world_defs Let_def run_simps coalesce_def)


text \<open>
  Failures are not caught by \<open>ensureReady\<close>. On a network that refuses the deployment
  it fails after \<open>DEPLOYING\<close> and the callback is never called with \<open>READY\<close>; a callback
  that throws at \<open>CONNECTED\<close> ends it there (\<open>ensureReady_callback_throws\<close>).
\<close>

lemma ensureReady_refused_deployment:
  "onProgress observed \<noteq> None \<and>
   fst (isDeployed testWallet failingDeployWorld) = Inr False \<and>
   deployMode observed = None \<and>
   fst (ensureReady testWallet failingDeployWorld observed) = Inl (JsError ''insufficient balance'') \<and>
   progressSteps (snd (ensureReady testWallet failingDeployWorld observed)) =
     [CONNECTED, CHECK_DEPLOYED, DEPLOYING] \<and>
   progressSteps (snd (ensureReady testWallet failingDeployWorld observed)) \<noteq>
     [CONNECTED, CHECK_DEPLOYED, DEPLOYING, READY]"
proof -
  have ob: "onProgress observed = Some (\<lambda>_. Inr ())" by (simp add: observed_def)
  have ok: "\<forall>s::ProgressStep. (\<lambda>_. Inr ()) s = (Inr () :: thrown + unit)" by simp
  have nd: "fst (isDeployed testWallet failingDeployWorld) = Inr False"
    by (simp add: isDeployed_eq world_defs truthy_def)
  have md: "deployMode observed = None \<or> deployMode observed = Some if_needed"
    by (simp add: observed_def)
  from ensureReady_undeployed_if_needed(2) [OF ob ok nd md deploy_in_failingDeployWorld]
  have r: "fst (ensureReady testWallet failingDeployWorld observed) =
             Inl (JsError ''insufficient balance'') \<and>
           progressSteps (snd (ensureReady testWallet failingDeployWorld observed)) =
             [CONNECTED, CHECK_DEPLOYED, DEPLOYING]" .
  with ob nd show ?thesis by (simp add: observed_def)
qed

section \<open>Sponsorship\<close>

lemma execute_sponsored_rejected:
  assumes "effectiveFeeMode w opts = sponsored" and "sponsor w = Some g"
    and "g (sponsorshipRequestFor w cs opts) = Inl e"
  shows "execute w world cs opts =
           (Inl (JsError (''Sponsorship rejected: '' @ errorMessage e)),
            [SponsorAsked (sponsorshipRequestFor w cs opts)])"
  using assms
  by (simp add: execute_def Let_def requestSponsorship_eq [OF assms(2)] run_simps
      effectiveFeeMode_def sponsorshipRequestFor_def)

lemma deploy_sponsored_rejected:
  assumes "effectiveFeeMode w opts = sponsored" and "sponsor w = Some g"
    and "g (sponsorshipRequestFor w [] opts) = Inl e"
    and "getClassHash world = Inr ch" and "getPublicKey world = Inr pk"
    and "getConstructorCalldata world pk = Inr cd"
  shows "deploy w world opts =
           (Inl (JsError (''Sponsorship rejected: '' @ errorMessage e)),
            [DeployInvoked, SponsorAsked (sponsorshipRequestFor w [] opts)])"
  using assms
  by (simp add: deploy_def Let_def requestSponsorship_eq [OF assms(2)] run_simps
      effectiveFeeMode_def sponsorshipRequestFor_def)

lemma execute_asks_only_its_request:
  "SponsorAsked r \<in> set (snd (execute w world cs opts)) \<Longrightarrow>
     effectiveFeeMode w opts = sponsored \<and> sponsor w \<noteq> None \<and> r = sponsorshipRequestFor w cs opts"
proof (cases "sponsor w")
  case None
  assume "SponsorAsked r \<in> set (snd (execute w world cs opts))"
  then show ?thesis using None
    by (auto simp: execute_def Let_def requestSponsorship_def
        snd_andThen fst_andThen call_def return_def throw_def
        split: sum.splits if_splits)
next
  case (Some g)
  assume "SponsorAsked r \<in> set (snd (execute w world cs opts))"
  then show ?thesis using Some
    by (auto simp: execute_def Let_def requestSponsorship_eq [OF Some]
        snd_andThen fst_andThen call_def return_def
        effectiveFeeMode_def sponsorshipRequestFor_def
        split: sum.splits if_splits)
qed

lemma deploy_asks_only_its_request:
  "SponsorAsked r \<in> set (snd (deploy w world opts)) \<Longrightarrow>
     effectiveFeeMode w opts = sponsored \<and> sponsor w \<noteq> None \<and> r = sponsorshipRequestFor w [] opts \<and>
     (\<exists>ch pk cd. getClassHash world = Inr ch \<and> getPublicKey world = Inr pk \<and>
        getConstructorCalldata world pk = Inr cd)"
proof (cases "sponsor w")
  case None
  assume "SponsorAsked r \<in> set (snd (deploy w world opts))"
  then show ?thesis using None
    by (auto simp: deploy_def Let_def requestSponsorship_def
        snd_andThen fst_andThen call_def return_def throw_def
        split: sum.splits if_splits)
next
  case (Some g)
  assume "SponsorAsked r \<in> set (snd (deploy w world opts))"
  then show ?thesis using Some
    by (auto simp: deploy_def Let_def requestSponsorship_eq [OF Some]
        snd_andThen fst_andThen call_def return_def
        effectiveFeeMode_def sponsorshipRequestFor_def
        split: sum.splits if_splits) metis+
qed

text \<open>
  Claim C6. Let the sponsor callback fail on a request with an error of message \<open>m\<close>.
  Whenever \<open>execute\<close> or \<open>deploy\<close> hands that request to the callback, the operation
  fails with the single error \<open>"Sponsorship rejected: " + m\<close> and nothing is submitted.
  \<open>execute\<close> in sponsored fee mode always asks the callback, for exactly its calls;
  \<open>deploy\<close> in sponsored fee mode asks it once the account provider has given the class
  hash, the public key and the constructor calldata.
\<close>

theorem sponsorship_rejection_is_wrapped:
  assumes "sponsor w = Some getSponsorship" and "getSponsorship request = Inl (JsError m)"
  shows
   "(SponsorAsked request \<in> set (snd (execute w world cs opts)) \<longrightarrow>
       execute w world cs opts =
         (Inl (JsError (''Sponsorship rejected: '' @ m)), [SponsorAsked request])) \<and>
    (SponsorAsked request \<in> set (snd (deploy w world opts)) \<longrightarrow>
       deploy w world opts =
         (Inl (JsError (''Sponsorship rejected: '' @ m)), [DeployInvoked, SponsorAsked request])) \<and>
    (effectiveFeeMode w opts = sponsored \<and> request = sponsorshipRequestFor w cs opts \<longrightarrow>
       SponsorAsked request \<in> set (snd (execute w world cs opts))) \<and>
    (effectiveFeeMode w opts = sponsored \<and> request = sponsorshipRequestFor w [] opts \<and>
       (\<exists>ch pk cd. getClassHash world = Inr ch \<and> getPublicKey world = Inr pk \<and>
          getConstructorCalldata world pk = Inr cd) \<longrightarrow>
       SponsorAsked request \<in> set (snd (deploy w world opts)))"
proof (intro conjI impI)
  assume "SponsorAsked request \<in> set (snd (execute w world cs opts))"
  from execute_asks_only_its_request [OF this]
  have "effectiveFeeMode w opts = sponsored" and "request = sponsorshipRequestFor w cs opts"
    by blast+
  then show "execute w world cs opts =
         (Inl (JsError (''Sponsorship rejected: '' @ m)), [SponsorAsked request])"
    using execute_sponsored_rejected [of w opts getSponsorship cs "JsError m" world] assms
    by (simp add: errorMessage_def)
next
  assume "SponsorAsked request \<in> set (snd (deploy w world opts))"
  from deploy_asks_only_its_request [OF this]
  obtain ch pk cd where "effectiveFeeMode w opts = sponsored"
    and "request = sponsorshipRequestFor w [] opts"
    and "getClassHash world = Inr ch" and "getPublicKey world = Inr pk"
    and "getConstructorCalldata world pk = Inr cd"
    by blast
  then show "deploy w world opts =
         (Inl (JsError (''Sponsorship rejected: '' @ m)), [DeployInvoked, SponsorAsked request])"
    using deploy_sponsored_rejected [of w opts getSponsorship "JsError m" world ch pk cd] assms
    by (simp add: errorMessage_def)
next
  assume "effectiveFeeMode w opts = sponsored \<and> request = sponsorshipRequestFor w cs opts"
  then show "SponsorAsked request \<in> set (snd (execute w world cs opts))"
    using execute_sponsored_rejected [of w opts getSponsorship cs "JsError m" world] assms
    by simp
next
  assume "effectiveFeeMode w opts = sponsored \<and> request = sponsorshipRequestFor w [] opts \<and>
       (\<exists>ch pk cd. getClassHash world = Inr ch \<and> getPublicKey world = Inr pk \<and>
          getConstructorCalldata world pk = Inr cd)"
  then obtain ch pk cd where "effectiveFeeMode w opts = sponsored"
    and "request = sponsorshipRequestFor w [] opts"
    and "getClassHash world = Inr ch" and "getPublicKey world = Inr pk"
    and "getConstructorCalldata world pk = Inr cd"
    by blast
  then show "SponsorAsked request \<in> set (snd (deploy w world opts))"
    using deploy_sponsored_rejected [of w opts getSponsorship "JsError m" world ch pk cd] assms
    by simp
qed

theorem sponsorship_rejection_is_wrapped_witness:
  "sponsor testWallet \<noteq> None \<and>
   effectiveFeeMode testWallet noOptions = sponsored \<and>
   SponsorAsked (sponsorshipRequestFor testWallet [transferCall] noOptions)
     \<in> set (snd (execute testWallet undeployedWorld [transferCall] noOptions)) \<and>
   fst (execute testWallet undeployedWorld [transferCall] noOptions) =
     Inl (JsError ''Sponsorship rejected: Rate limit exceeded'') \<and>
   SponsorAsked (sponsorshipRequestFor testWallet [] noOptions)
     \<in> set (snd (deploy testWallet undeployedWorld noOptions)) \<and>
   fst (deploy testWallet undeployedWorld noOptions) =
     Inl (JsError ''Sponsorship rejected: Rate limit exceeded'')"
proof -
  let ?g = "\<lambda>_::SponsorshipRequest. (Inl (JsError ''Rate limit exceeded'') :: thrown + SponsorshipResponse)"
  have sp: "sponsor testWallet = Some ?g" by (simp add: testWallet_def)
  have fm: "effectiveFeeMode testWallet noOptions = sponsored"
    by (simp add: effectiveFeeMode_def testWallet_def noOptions_def)
  have pre: "\<exists>ch pk cd. getClassHash undeployedWorld = Inr ch \<and> getPublicKey undeployedWorld = Inr pk \<and>
          getConstructorCalldata undeployedWorld pk = Inr cd"
    by (simp add: undeployedWorld_def)
  have rj: "?g r = Inl (JsError ''Rate limit exceeded'')" for r by simp
  note e = sponsorship_rejection_is_wrapped [OF sp rj, of _ undeployedWorld "[transferCall]" noOptions]
  have e1: "SponsorAsked (sponsorshipRequestFor testWallet [transferCall] noOptions)
     \<in> set (snd (execute testWallet undeployedWorld [transferCall] noOptions))"
    using e [of "sponsorshipRequestFor testWallet [transferCall] noOptions"] fm by blast
  then have e2: "execute testWallet undeployedWorld [transferCall] noOptions =
     (Inl (JsError (''Sponsorship rejected: '' @ ''Rate limit exceeded'')),
      [SponsorAsked (sponsorshipRequestFor testWallet [transferCall] noOptions)])"
    using e [of "sponsorshipRequestFor testWallet [transferCall] noOptions"] by blast
  have d1: "SponsorAsked (sponsorshipRequestFor testWallet [] noOptions)
     \<in> set (snd (deploy testWallet undeployedWorld noOptions))"
    using e [of "sponsorshipRequestFor testWallet [] noOptions"] fm pre by blast
  then have d2: "deploy testWallet undeployedWorld noOptions =
     (Inl (JsError (''Sponsorship rejected: '' @ ''Rate limit exceeded'')),
      [DeployInvoked, SponsorAsked (sponsorshipRequestFor testWallet [] noOptions)])"
    using e [of "sponsorshipRequestFor testWallet [] noOptions"] by blast
  have n: "sponsor testWallet \<noteq> None" using sp by simp
  from e2 have e3: "fst (execute testWallet undeployedWorld [transferCall] noOptions) =
     Inl (JsError ''Sponsorship rejected: Rate limit exceeded'')" by simp
  from d2 have d3: "fst (deploy testWallet undeployedWorld noOptions) =
     Inl (JsError ''Sponsorship rejected: Rate limit exceeded'')" by simp
  from n fm e1 e3 d1 d3 show ?thesis by blast
qed

end
